theory Spec2Isabelle
  imports Complex_Main "HOL-Library.Multiset" "HOL-Library.Sublist"
begin

section \<open>Retry helper (retry service: exponentialBackoff, simpleRetry)\<close>

text \<open>
  The retry helpers wrap a zero-argument asynchronous operation \<open>fn\<close>. The operation is
  a closure with effects of its own, so the model takes it as a function from the number
  of the invocation (1 for the first call) to what that call does: \<open>Inl err\<close> when the
  awaited promise rejects with \<open>err\<close>, \<open>Inr v\<close> when it resolves to \<open>v\<close>.
  JavaScript numbers used as durations are modelled as reals, \<open>Math.random()\<close> as a
  function from the attempt number to the value drawn at that attempt.
  A run is observed through what it returns or throws, how often it invoked \<open>fn\<close>, and
  the delays it handed to \<open>setTimeout\<close>, in order.
\<close>

datatype ('e, 'a) outcome =
    Returned 'a
  | Thrown "'e option"  \<comment> \<open>\<open>Thrown None\<close> is \<open>throw null\<close>\<close>

record ('e, 'a) run =
  result :: "('e, 'a) outcome"
  calls :: nat
  sleeps :: "real list"

record 'e options =
  maxAttempts :: int
  baseDelay :: real
  maxDelay :: real
  backoffMultiplier :: real
  shouldRetry :: "('e \<Rightarrow> nat \<Rightarrow> bool) option"  \<comment> \<open>\<open>None\<close> is the default \<open>null\<close>\<close>

definition defaultOptions :: "'e options" where
  "defaultOptions =
     \<lparr>maxAttempts = 5, baseDelay = 1000, maxDelay = 30000, backoffMultiplier = 2,
      shouldRetry = None\<rparr>"

definition shouldRetryThis :: "'e options \<Rightarrow> 'e \<Rightarrow> nat \<Rightarrow> bool" where
  \<comment> \<open>\<open>!shouldRetry || shouldRetry(err, attempt)\<close>\<close>
  "shouldRetryThis opts err attempt =
     (case shouldRetry opts of None \<Rightarrow> True | Some p \<Rightarrow> p err attempt)"

definition delay :: "'e options \<Rightarrow> nat \<Rightarrow> real" where
  \<comment> \<open>\<open>Math.min(baseDelay * Math.pow(backoffMultiplier, attempt - 1), maxDelay)\<close>\<close>
  "delay opts attempt =
     min (baseDelay opts * backoffMultiplier opts ^ (attempt - 1)) (maxDelay opts)"

definition jitter :: "'e options \<Rightarrow> (nat \<Rightarrow> real) \<Rightarrow> nat \<Rightarrow> real" where
  \<comment> \<open>\<open>delay * Math.random() * 0.1\<close>\<close>
  "jitter opts random attempt = delay opts attempt * random attempt * (1 / 10)"

definition actualDelay :: "'e options \<Rightarrow> (nat \<Rightarrow> real) \<Rightarrow> nat \<Rightarrow> real" where
  "actualDelay opts random attempt = delay opts attempt + jitter opts random attempt"

text \<open>
  The \<open>for\<close> loop of \<open>exponentialBackoff\<close>, from the loop test on. \<open>attempt\<close> is the
  loop variable, \<open>lastError\<close> the variable of that name, \<open>ncalls\<close> the number of
  invocations so far and \<open>slept\<close> the delays so far.
\<close>

function backoff_loop ::
  "(nat \<Rightarrow> 'e + 'a) \<Rightarrow> 'e options \<Rightarrow> (nat \<Rightarrow> real) \<Rightarrow> nat \<Rightarrow> 'e option \<Rightarrow> nat \<Rightarrow> real list
     \<Rightarrow> ('e, 'a) run"
where
  "backoff_loop fn opts random attempt lastError ncalls slept =
     (if int attempt \<le> maxAttempts opts then
        (case fn (Suc ncalls) of
           Inr v \<Rightarrow> \<lparr>result = Returned v, calls = Suc ncalls, sleeps = slept\<rparr>
         | Inl err \<Rightarrow>
             if int attempt = maxAttempts opts \<or> \<not> shouldRetryThis opts err attempt
             then \<lparr>result = Thrown (Some err), calls = Suc ncalls, sleeps = slept\<rparr>
             else backoff_loop fn opts random (Suc attempt) (Some err) (Suc ncalls)
                    (slept @ [actualDelay opts random attempt]))
      else \<lparr>result = Thrown lastError, calls = ncalls, sleeps = slept\<rparr>)"
  by pat_completeness auto
termination
  by (relation "measure (\<lambda>(fn, opts, random, attempt, lastError, ncalls, slept).
        nat (maxAttempts opts + 1 - int attempt))") auto

declare backoff_loop.simps [simp del]

definition exponentialBackoff ::
  "(nat \<Rightarrow> 'e + 'a) \<Rightarrow> 'e options \<Rightarrow> (nat \<Rightarrow> real) \<Rightarrow> ('e, 'a) run" where
  "exponentialBackoff fn opts random = backoff_loop fn opts random 1 None 0 []"

text \<open>
  The loop of \<open>simpleRetry\<close>: \<open>for (let i = 0; i < attempts; i++)\<close>, waiting \<open>delayMs\<close>
  after a failure unless it was the last iteration.
\<close>

function simple_loop ::
  "(nat \<Rightarrow> 'e + 'a) \<Rightarrow> int \<Rightarrow> real \<Rightarrow> nat \<Rightarrow> 'e option \<Rightarrow> real list \<Rightarrow> ('e, 'a) run"
where
  "simple_loop fn attempts delayMs i lastError slept =
     (if int i < attempts then
        (case fn (Suc i) of
           Inr v \<Rightarrow> \<lparr>result = Returned v, calls = Suc i, sleeps = slept\<rparr>
         | Inl err \<Rightarrow>
             simple_loop fn attempts delayMs (Suc i) (Some err)
               (if int i < attempts - 1 then slept @ [delayMs] else slept))
      else \<lparr>result = Thrown lastError, calls = i, sleeps = slept\<rparr>)"
  by pat_completeness auto
termination
  by (relation "measure (\<lambda>(fn, attempts, delayMs, i, lastError, slept). nat (attempts - int i))")
    auto

declare simple_loop.simps [simp del]

definition simpleRetry :: "(nat \<Rightarrow> 'e + 'a) \<Rightarrow> int \<Rightarrow> real \<Rightarrow> ('e, 'a) run" where
  "simpleRetry fn attempts delayMs = simple_loop fn attempts delayMs 0 None []"


section \<open>Server locator (network utilities: getServerUrl, detectServerUrl)\<close>

text \<open>
  A health probe is \<open>fetch(url + '/health')\<close> under an abort timer. What the server does
  is outside the program, so the probe is a parameter: a function from the URL and the
  timeout (in ms) to what the request does.
\<close>

datatype health_response =
    NoAnswer    \<comment> \<open>\<open>fetch\<close> rejects: refused, unreachable or aborted by the timer\<close>
  | NotOk       \<comment> \<open>a response whose \<open>ok\<close> is false\<close>
  | OkBadBody   \<comment> \<open>\<open>ok\<close>, but \<open>response.json()\<close> rejects\<close>
  | OkJson      \<comment> \<open>\<open>ok\<close> and a JSON body\<close>

type_synonym probe = "string \<Rightarrow> nat \<Rightarrow> health_response"

datatype server_mode = Localhost | Local | Online | Disconnected
  \<comment> \<open>the strings \<open>'localhost'\<close>, \<open>'local'\<close>, \<open>'online'\<close>, \<open>'disconnected'\<close>\<close>

datatype cached_mode = CLocalhost | CLocal | CCloud
  \<comment> \<open>the values \<open>cachedMode\<close> takes when set: \<open>'localhost'\<close>, \<open>'local'\<close>, \<open>'cloud'\<close>\<close>

record server_urls =
  cloud :: string
  local :: string
  localhost :: string

record resolution =
  url :: string
  mode :: server_mode

record locator =
  SERVER_URLS :: server_urls
  cachedMode :: "cached_mode option"  \<comment> \<open>\<open>None\<close> is \<open>null\<close>\<close>
  lastCheck :: int

definition CACHE_DURATION :: int where
  "CACHE_DURATION = 5000"

definition env_or :: "string option \<Rightarrow> string \<Rightarrow> string" where
  \<comment> \<open>\<open>process.env.X || dflt\<close>: an unset or empty variable gives the default\<close>
  "env_or v dflt = (case v of None \<Rightarrow> dflt | Some s \<Rightarrow> if s = [] then dflt else s)"

definition initial_locator :: "string option \<Rightarrow> string option \<Rightarrow> locator" where
  \<comment> \<open>the module state at load, from \<open>REACT_APP_CLOUD_SERVER\<close> and \<open>REACT_APP_LOCAL_SERVER\<close>\<close>
  "initial_locator cloud_env local_env =
     \<lparr>SERVER_URLS =
        \<lparr>cloud = env_or cloud_env ''http://localhost:3001'',
         local = env_or local_env ''http://localhost:3001'',
         localhost = ''http://localhost:3001''\<rparr>,
      cachedMode = None, lastCheck = 0\<rparr>"

definition isServerAvailable :: "probe \<Rightarrow> string \<Rightarrow> nat \<Rightarrow> bool" where
  "isServerAvailable probe u timeout = (probe u timeout = OkJson)"

definition cached_url :: "server_urls \<Rightarrow> cached_mode \<Rightarrow> string" where
  \<comment> \<open>\<open>SERVER_URLS[cachedMode]\<close>\<close>
  "cached_url urls m = (case m of CLocalhost \<Rightarrow> localhost urls | CLocal \<Rightarrow> local urls
                          | CCloud \<Rightarrow> cloud urls)"

definition cached_server_mode :: "cached_mode \<Rightarrow> server_mode" where
  \<comment> \<open>\<open>cachedMode === 'cloud' ? 'online' : cachedMode\<close>\<close>
  "cached_server_mode m = (case m of CCloud \<Rightarrow> Online | CLocalhost \<Rightarrow> Localhost
                             | CLocal \<Rightarrow> Local)"

definition cache_fresh :: "locator \<Rightarrow> int \<Rightarrow> bool" where
  \<comment> \<open>\<open>cachedMode && (now - lastCheck) < CACHE_DURATION\<close>\<close>
  "cache_fresh st now = (cachedMode st \<noteq> None \<and> now - lastCheck st < CACHE_DURATION)"

text \<open>
  \<open>getServerUrl\<close>: \<open>now\<close> is \<open>Date.now()\<close>, \<open>onLine\<close> is \<open>navigator.onLine\<close>. It returns
  the resolution and the module state it leaves. \<open>probe_candidates\<close> is the part after
  the cache test: localhost first, then the LAN server, then the cloud server, then the
  fallback.
\<close>

definition probe_candidates :: "probe \<Rightarrow> bool \<Rightarrow> int \<Rightarrow> locator \<Rightarrow> resolution \<times> locator" where
  "probe_candidates probe onLine now st =
     (let urls = SERVER_URLS st in
      if isServerAvailable probe (localhost urls) 2000 then
        (\<lparr>url = localhost urls, mode = Localhost\<rparr>,
         st\<lparr>cachedMode := Some CLocalhost, lastCheck := now\<rparr>)
      else if local urls \<noteq> localhost urls \<and> isServerAvailable probe (local urls) 2000 then
        (\<lparr>url = local urls, mode = Local\<rparr>,
         st\<lparr>cachedMode := Some CLocal, lastCheck := now\<rparr>)
      else if onLine \<and> cloud urls \<noteq> localhost urls
                \<and> isServerAvailable probe (cloud urls) 3000 then
        (\<lparr>url = cloud urls, mode = Online\<rparr>,
         st\<lparr>cachedMode := Some CCloud, lastCheck := now\<rparr>)
      else
        (\<lparr>url = localhost urls, mode = Localhost\<rparr>,
         st\<lparr>cachedMode := Some CLocalhost, lastCheck := now\<rparr>))"

definition getServerUrl :: "probe \<Rightarrow> bool \<Rightarrow> int \<Rightarrow> locator \<Rightarrow> resolution \<times> locator" where
  "getServerUrl probe onLine now st =
     (case cachedMode st of
        Some m \<Rightarrow>
          if now - lastCheck st < CACHE_DURATION
          then (\<lparr>url = cached_url (SERVER_URLS st) m, mode = cached_server_mode m\<rparr>, st)
          else probe_candidates probe onLine now st
      | None \<Rightarrow> probe_candidates probe onLine now st)"

definition forceServerUrl :: "string \<Rightarrow> locator \<Rightarrow> locator" where
  "forceServerUrl u st =
     st\<lparr>SERVER_URLS := (SERVER_URLS st)\<lparr>local := u, localhost := u\<rparr>,
        cachedMode := None, lastCheck := 0\<rparr>"

definition invalidateServerCache :: "locator \<Rightarrow> locator" where
  "invalidateServerCache st = st\<lparr>cachedMode := None, lastCheck := 0\<rparr>"

text \<open>\<open>String.prototype.includes\<close>, named \<open>str_includes\<close> here.\<close>

fun str_includes :: "string \<Rightarrow> string \<Rightarrow> bool" where
  "str_includes [] sub = (sub = [])"
| "str_includes (c # cs) sub = (prefix sub (c # cs) \<or> str_includes cs sub)"

definition urlsToCheck :: "string option \<Rightarrow> string list" where
  \<comment> \<open>the candidate list after \<open>.filter(Boolean)\<close>; the argument is \<open>VITE_BACKEND_URL\<close>\<close>
  "urlsToCheck backend_env =
     (case backend_env of None \<Rightarrow> [] | Some u \<Rightarrow> if u = [] then [] else [u]) @
     [''http://192.168.137.1:3001'', ''http://192.168.1.1:3001'', ''http://192.168.0.1:3001'',
      ''http://localhost:3001'', ''http://127.0.0.1:3001'', ''http://localhost:5000'',
      ''http://127.0.0.1:5000'']"

definition mode_of_url :: "string \<Rightarrow> server_mode" where
  "mode_of_url u =
     (if str_includes u ''192.168'' \<or> str_includes u ''10.0'' then Local
      else if str_includes u ''cloud'' \<or> str_includes u ''herokuapp'' \<or> str_includes u ''vercel''
      then Online
      else Localhost)"

text \<open>The loop of \<open>detectServerUrl\<close> over the candidates, and its fallback.\<close>

fun detect_loop :: "probe \<Rightarrow> string list \<Rightarrow> resolution" where
  "detect_loop probe [] = \<lparr>url = ''http://localhost:3001'', mode = Disconnected\<rparr>"
| "detect_loop probe (u # us) =
     (case probe u 2000 of
        OkJson \<Rightarrow> \<lparr>url = u, mode = mode_of_url u\<rparr>
      | _ \<Rightarrow> detect_loop probe us)"

definition detectServerUrl :: "probe \<Rightarrow> string option \<Rightarrow> resolution" where
  "detectServerUrl probe backend_env = detect_loop probe (urlsToCheck backend_env)"

section \<open>Local order store (db service over the IndexedDB object store \<open>orders\<close>)\<close>

text \<open>
  JavaScript values that serve as order identifiers: a number, a string, or
  \<open>undefined\<close> for a missing field. \<open>===\<close> on such values is equality of the datatype.
\<close>

datatype jsval = JUndefined | JNum int | JStr string

definition truthy :: "jsval \<Rightarrow> bool" where
  "truthy v = (case v of JUndefined \<Rightarrow> False | JNum n \<Rightarrow> n \<noteq> 0 | JStr s \<Rightarrow> s \<noteq> [])"

definition js_or :: "jsval \<Rightarrow> jsval \<Rightarrow> jsval" where
  \<comment> \<open>\<open>a || b\<close>\<close>
  "js_or a b = (if truthy a then a else b)"

definition digit :: "nat \<Rightarrow> char" where
  "digit n = ''0123456789'' ! n"

function decimal :: "nat \<Rightarrow> string" where
  "decimal n = (if n < 10 then [digit n] else decimal (n div 10) @ [digit (n mod 10)])"
  by pat_completeness auto
termination
  by (relation "measure (\<lambda>n. n)") auto

declare decimal.simps [simp del]

definition String_of :: "jsval \<Rightarrow> string" where
  \<comment> \<open>\<open>String(v)\<close>\<close>
  "String_of v =
     (case v of
        JUndefined \<Rightarrow> ''undefined''
      | JNum n \<Rightarrow> (if n < 0 then CHR ''-'' # decimal (nat (- n)) else decimal (nat n))
      | JStr s \<Rightarrow> s)"

text \<open>
  An order record. \<open>id_local\<close> is the field \<open>id\<close>, the key of the object store
  (\<open>keyPath: 'id'\<close>, numeric); \<open>id_server\<close> is the field \<open>_id\<close>; \<open>orderId\<close> is
  the order number. A missing \<open>id\<close> or \<open>_id\<close> is \<open>None\<close>. The flags \<open>synced\<close> and
  \<open>dirty\<close> are only ever tested for truthiness, so a missing flag is \<open>False\<close>.
\<close>

record item =
  item_name :: string
  item_price :: int
  item_quantity :: int
  item_image :: string

record order =
  id_local :: "int option"
  id_server :: "string option"
  orderId :: jsval
  status :: string
  timestamp :: int
  synced :: bool
  dirty :: bool
  total :: int
  items :: "item list"

definition id_val :: "order \<Rightarrow> jsval" where
  \<comment> \<open>\<open>o.id\<close>\<close>
  "id_val ord = (case id_local ord of None \<Rightarrow> JUndefined | Some n \<Rightarrow> JNum n)"

definition server_id_val :: "order \<Rightarrow> jsval" where
  \<comment> \<open>\<open>o._id\<close>\<close>
  "server_id_val ord = (case id_server ord of None \<Rightarrow> JUndefined | Some s \<Rightarrow> JStr s)"

definition truthy_id :: "string option \<Rightarrow> string option" where
  \<comment> \<open>\<open>x || null\<close> for an optional string: missing and empty both give \<open>null\<close>\<close>
  "truthy_id x = (case x of None \<Rightarrow> None | Some s \<Rightarrow> if s = [] then None else Some s)"

text \<open>
  The object store: its records in key order, as \<open>getAll\<close> returns them, and the
  current number of its key generator (\<open>autoIncrement: true\<close>). The generator starts at
  1, is raised past every explicit numeric key that reaches it, and is not reset by
  \<open>clear\<close> or \<open>delete\<close> (Indexed Database API, key generators).
\<close>

record store =
  rows :: "(int \<times> order) list"
  next_key :: int

definition empty_store :: store where
  "empty_store = \<lparr>rows = [], next_key = 1\<rparr>"

datatype db_error =
    DataError          \<comment> \<open>the argument is not a valid key\<close>
  | ConstraintError    \<comment> \<open>\<open>add\<close> of a key that is already stored\<close>
  | OrderNotFound      \<comment> \<open>\<open>new Error('Order not found')\<close>\<close>

fun upsert :: "int \<Rightarrow> order \<Rightarrow> (int \<times> order) list \<Rightarrow> (int \<times> order) list" where
  "upsert k v [] = [(k, v)]"
| "upsert k v ((k', v') # xs) =
     (if k < k' then (k, v) # (k', v') # xs
      else if k = k' then (k, v) # xs
      else (k', v') # upsert k v xs)"

definition db_get :: "jsval \<Rightarrow> store \<Rightarrow> db_error + order option" where
  \<comment> \<open>\<open>db.get('orders', key)\<close>; the stored keys are numbers, so no string is among them\<close>
  "db_get key st =
     (case key of
        JUndefined \<Rightarrow> Inl DataError
      | JNum k \<Rightarrow> Inr (map_of (rows st) k)
      | JStr s \<Rightarrow> Inr None)"

definition db_getAll :: "store \<Rightarrow> order list" where
  "db_getAll st = map snd (rows st)"

definition db_put :: "order \<Rightarrow> store \<Rightarrow> store" where
  \<comment> \<open>insert or replace; a record without \<open>id\<close> gets the generated key written into it\<close>
  "db_put ord st =
     (case id_local ord of
        Some k \<Rightarrow> \<lparr>rows = upsert k ord (rows st),
                   next_key = (if next_key st \<le> k then k + 1 else next_key st)\<rparr>
      | None \<Rightarrow> \<lparr>rows = upsert (next_key st) (ord\<lparr>id_local := Some (next_key st)\<rparr>) (rows st),
                 next_key = next_key st + 1\<rparr>)"

definition db_add :: "order \<Rightarrow> store \<Rightarrow> db_error + store" where
  \<comment> \<open>as \<open>put\<close>, but a key that is already stored is an error\<close>
  "db_add ord st =
     (case id_local ord of
        Some k \<Rightarrow> if map_of (rows st) k \<noteq> None then Inl ConstraintError else Inr (db_put ord st)
      | None \<Rightarrow> Inr (db_put ord st))"

definition db_delete :: "int \<Rightarrow> store \<Rightarrow> store" where
  "db_delete k st = st\<lparr>rows := filter (\<lambda>(k', v). k' \<noteq> k) (rows st)\<rparr>"

definition db_clear :: "store \<Rightarrow> store" where
  "db_clear st = st\<lparr>rows := []\<rparr>"

text \<open>
  What the object store guarantees of its contents: the keys are in strictly ascending
  order, every record carries its key in \<open>id\<close>, and the key generator is above every
  stored key.
\<close>

definition wf_store :: "store \<Rightarrow> bool" where
  "wf_store st =
     (sorted_wrt (<) (map fst (rows st)) \<and>
      (\<forall>(k, v) \<in> set (rows st). id_local v = Some k \<and> k < next_key st))"

definition forget_key :: "order \<Rightarrow> order" where
  \<comment> \<open>a record without its local key: all the fields the server sent\<close>
  "forget_key ord = ord\<lparr>id_local := None\<rparr>"

definition server_copy :: "order \<Rightarrow> order \<Rightarrow> bool" where
  \<comment> \<open>\<open>r\<close> is the order \<open>sent\<close> by the server, up to the local key and the synced flag\<close>
  "server_copy sent r =
     (r\<lparr>id_local := None, synced := True\<rparr> = sent\<lparr>id_local := None, synced := True\<rparr>)"

definition keys_below :: "store \<Rightarrow> bool" where
  \<comment> \<open>the key generator is above every stored key\<close>
  "keys_below st = (\<forall>k \<in> fst ` set (rows st). k < next_key st)"

text \<open>
  The server, seen through the api service. Each function says what the call does for
  its arguments: \<open>None\<close> (or \<open>False\<close>) when the call throws, which it does on a
  network error and on a response that is not ok. The calls made are recorded.
\<close>

datatype sync_result =
    ResultObject "order list option"  \<comment> \<open>a JSON object, with its field \<open>orders\<close> if any\<close>
  | ResultArray "order list"          \<comment> \<open>a JSON array\<close>

record api =
  apiFetchOrders :: "order list option"
  apiSyncOrders :: "order list \<Rightarrow> sync_result option"
  apiFetchOrderByNumber :: "jsval \<Rightarrow> string option option"
    \<comment> \<open>the \<open>_id\<close> of the order returned, if the body has one\<close>
  apiUpdateOrderStatus :: "string \<Rightarrow> string \<Rightarrow> bool"
  apiDeleteOrder :: "string \<Rightarrow> bool"

datatype api_call =
    FetchOrders
  | SyncOrders "order list"
  | FetchOrderByNumber jsval
  | UpdateOrderStatus string string
  | DeleteOrder string
  | DirectFetchOrders

definition newest_first :: "order list \<Rightarrow> order list" where
  \<comment> \<open>\<open>orders.sort((a, b) => b.timestamp - a.timestamp)\<close>; the sort is stable\<close>
  "newest_first os = sort_key (\<lambda>ord. - timestamp ord) os"

text \<open>
  The transaction of \<open>getAllOrders\<close>: \<open>clear\<close>, then \<open>add\<close> of every fetched order.
  An \<open>add\<close> that fails aborts the transaction, which undoes all of it.
\<close>

fun add_all :: "order list \<Rightarrow> store \<Rightarrow> db_error + store" where
  "add_all [] st = Inr st"
| "add_all (ord # os) st =
     (case db_add ord st of Inl e \<Rightarrow> Inl e | Inr st' \<Rightarrow> add_all os st')"

definition cached_orders :: "store \<Rightarrow> order list" where
  \<comment> \<open>the fallback: \<open>db.getAll('orders')\<close>, sorted\<close>
  "cached_orders st = newest_first (db_getAll st)"

definition getAllOrders :: "bool \<Rightarrow> api \<Rightarrow> store \<Rightarrow> order list \<times> store \<times> api_call list" where
  "getAllOrders onLine server st =
     (if onLine then
        (case apiFetchOrders server of
           Some os \<Rightarrow>
             (case add_all os (db_clear st) of
                Inr st' \<Rightarrow> (newest_first os, st', [FetchOrders])
              | Inl e \<Rightarrow> (cached_orders st, st, [FetchOrders]))
         | None \<Rightarrow> (cached_orders st, st, [FetchOrders]))
      else (cached_orders st, st, []))"

definition matches_any :: "jsval \<Rightarrow> order \<Rightarrow> bool" where
  \<comment> \<open>\<open>o._id === orderId || o.orderId === orderId || String(o.id) === String(orderId)\<close>\<close>
  "matches_any key ord =
     (server_id_val ord = key \<or> orderId ord = key \<or> String_of (id_val ord) = String_of key)"

definition find_order :: "jsval \<Rightarrow> store \<Rightarrow> db_error + order option" where
  \<comment> \<open>the lookup that opens \<open>updateOrderStatus\<close> and \<open>deleteOrder\<close>\<close>
  "find_order key st =
     (case db_get key st of
        Inl e \<Rightarrow> Inl e
      | Inr (Some ord) \<Rightarrow> Inr (Some ord)
      | Inr None \<Rightarrow> Inr (find (matches_any key) (db_getAll st)))"

definition updateOrderStatus :: "jsval \<Rightarrow> string \<Rightarrow> store \<Rightarrow> db_error + order \<times> store" where
  "updateOrderStatus key new_status st =
     (case find_order key st of
        Inl e \<Rightarrow> Inl e
      | Inr None \<Rightarrow> Inl OrderNotFound
      | Inr (Some ord) \<Rightarrow>
          (let ord' = ord\<lparr>status := new_status, dirty := True\<rparr>
           in Inr (ord', db_put ord' st)))"

definition saveOrder :: "order \<Rightarrow> store \<Rightarrow> store" where
  "saveOrder ord st = db_put ord st"

definition clearOrders :: "store \<Rightarrow> store" where
  "clearOrders st = db_clear st"

definition deleteOrder :: "jsval \<Rightarrow> store \<Rightarrow> db_error + order option \<times> store" where
  "deleteOrder key st =
     (case find_order key st of
        Inl e \<Rightarrow> Inl e
      | Inr None \<Rightarrow> Inr (None, st)
      | Inr (Some existing) \<Rightarrow>
          (case id_local existing of
             Some k \<Rightarrow> Inr (Some existing, db_delete k st)
           | None \<Rightarrow> Inl DataError))"

text \<open>
  The result object of the sync functions. \<open>message\<close> holds \<open>message\<close> or
  \<open>error\<close>, whichever the object has; for an error it is the text the api service
  throws on a response that is not ok.
\<close>

record report =
  success :: bool
  synced_count :: "nat option"   \<comment> \<open>the field \<open>synced\<close> of the result object\<close>
  message :: "string option"

definition syncWithServer :: "bool \<Rightarrow> api \<Rightarrow> store \<Rightarrow> report \<times> store \<times> api_call list" where
  "syncWithServer onLine server st =
     (if \<not> onLine then
        (\<lparr>success = False, synced_count = None, message = Some ''Offline''\<rparr>, st, [])
      else
        (case getAllOrders onLine server st of
           (os, st', cs) \<Rightarrow> (\<lparr>success = True, synced_count = None, message = None\<rparr>, st', cs)))"

definition getUnsyncedOrders :: "store \<Rightarrow> order list" where
  "getUnsyncedOrders st = filter (\<lambda>ord. \<not> synced ord) (db_getAll st)"

definition matches_synced :: "jsval \<Rightarrow> order \<Rightarrow> bool" where
  \<comment> \<open>\<open>o.id === orderId || o.orderId === orderId || o._id === orderId\<close>\<close>
  "matches_synced key ord = (id_val ord = key \<or> orderId ord = key \<or> server_id_val ord = key)"

definition markOrderAsSynced :: "jsval \<Rightarrow> store \<Rightarrow> order option \<times> store" where
  "markOrderAsSynced key st =
     (case find (matches_synced key) (db_getAll st) of
        Some ord \<Rightarrow> (let ord' = ord\<lparr>synced := True\<rparr> in (Some ord', db_put ord' st))
      | None \<Rightarrow> (None, st))"

text \<open>
  \<open>syncPendingOrders\<close>. First the bulk step: the unsynced records go to the server and
  every order it returns is marked synced and written back. Then the step for dirty
  records, a loop whose body catches its own errors.
\<close>

definition synced_orders_of :: "sync_result \<Rightarrow> order list" where
  \<comment> \<open>\<open>result.orders || (Array.isArray(result) ? result : [])\<close>\<close>
  "synced_orders_of r =
     (case r of ResultObject (Some os) \<Rightarrow> os | ResultObject None \<Rightarrow> [] | ResultArray os \<Rightarrow> os)"

definition write_back :: "order \<Rightarrow> store \<Rightarrow> store" where
  \<comment> \<open>\<open>await markOrderAsSynced(o.orderId || o._id || o.id); await saveOrder(o)\<close>\<close>
  "write_back ord st =
     saveOrder ord
       (snd (markOrderAsSynced (js_or (js_or (orderId ord) (server_id_val ord)) (id_val ord)) st))"

text \<open>
  How the loop finds the server identifier of a dirty record \<open>d\<close>: \<open>d._id\<close> when
  truthy, else, when \<open>d.orderId\<close> is truthy, the \<open>_id\<close> of the order fetched by number.
  \<open>Inl ()\<close> is the fetch throwing.
\<close>

definition resolve_server_id :: "api \<Rightarrow> order \<Rightarrow> (unit + string option) \<times> api_call list" where
  "resolve_server_id server d =
     (case truthy_id (id_server d) of
        Some sid \<Rightarrow> (Inr (Some sid), [])
      | None \<Rightarrow>
          if truthy (orderId d) then
            (case apiFetchOrderByNumber server (orderId d) of
               None \<Rightarrow> (Inl (), [FetchOrderByNumber (orderId d)])
             | Some found \<Rightarrow> (Inr (truthy_id found), [FetchOrderByNumber (orderId d)]))
          else (Inr None, []))"

definition push_dirty :: "api \<Rightarrow> order \<Rightarrow> store \<times> api_call list \<Rightarrow> store \<times> api_call list" where
  \<comment> \<open>one turn of the loop \<open>for (const d of dirty)\<close>\<close>
  "push_dirty server d acc =
     (case acc of (st, cs) \<Rightarrow>
        (case resolve_server_id server d of
           (Inl u, cs1) \<Rightarrow> (st, cs @ cs1)
         | (Inr None, cs1) \<Rightarrow> (st, cs @ cs1)
         | (Inr (Some sid), cs1) \<Rightarrow>
             if apiUpdateOrderStatus server sid (status d)
             then (db_put (d\<lparr>dirty := False\<rparr>) st, cs @ cs1 @ [UpdateOrderStatus sid (status d)])
             else (st, cs @ cs1 @ [UpdateOrderStatus sid (status d)])))"

definition push_all_dirty :: "api \<Rightarrow> store \<Rightarrow> store \<times> api_call list" where
  \<comment> \<open>\<open>allOrders.filter(o => o.dirty)\<close> and the loop over it\<close>
  "push_all_dirty server st = fold (push_dirty server) (filter dirty (db_getAll st)) (st, [])"

definition syncPendingOrders :: "bool \<Rightarrow> api \<Rightarrow> store \<Rightarrow> report \<times> store \<times> api_call list" where
  "syncPendingOrders onLine server st =
     (if \<not> onLine then
        (\<lparr>success = False, synced_count = None, message = Some ''Offline''\<rparr>, st, [])
      else
        (let pending = getUnsyncedOrders st in
         if length pending = 0 then
           (\<lparr>success = True, synced_count = Some 0, message = None\<rparr>, st, [])
         else
           (case apiSyncOrders server pending of
              None \<Rightarrow>
                (\<lparr>success = False, synced_count = None, message = Some ''Failed to sync orders''\<rparr>,
                 st, [SyncOrders pending])
            | Some r \<Rightarrow>
                (let syncedOrders = synced_orders_of r;
                     st1 = fold write_back syncedOrders st
                 in (case push_all_dirty server st1 of
                       (st2, cs) \<Rightarrow>
                         (\<lparr>success = True, synced_count = Some (length syncedOrders),
                           message = None\<rparr>,
                          st2, SyncOrders pending # cs))))))"

section \<open>Admin dashboard: loading and deleting orders\<close>

text \<open>
  The part of the dashboard component that reaches the store. \<open>isOnline\<close> and
  \<open>serverUrl\<close> are the fields of the network context, \<open>navigator_onLine\<close> is what the db
  service reads, \<open>confirm_answer\<close> is what the user answers to \<open>window.confirm\<close>, and
  \<open>direct_orders\<close> is the dashboard's own \<open>fetch\<close> of \<open>/api/orders\<close>. Of the
  component's state the model keeps the order list and the alerts shown; the statistics
  are computed from the order list and written nowhere else.
\<close>

datatype direct_response =
    DirectRejected
  | DirectNotOk
  | DirectOk "order list"

record dash_env =
  isOnline :: bool
  serverUrl :: string
  navigator_onLine :: bool
  confirm_answer :: bool
  direct_orders :: direct_response

datatype alert =
    CannotDeleteWhileOffline   \<comment> \<open>\<open>alert('Cannot delete while offline')\<close>\<close>
  | FailedToDeleteOrder        \<comment> \<open>\<open>alert('Failed to delete order')\<close>\<close>

record dashboard =
  orders :: "order list"
  alerts :: "alert list"

definition loadData ::
  "dash_env \<Rightarrow> api \<Rightarrow> dashboard \<times> store \<Rightarrow> dashboard \<times> store \<times> api_call list" where
  "loadData env server acc =
     (case acc of (ui, st) \<Rightarrow>
        (case (if isOnline env \<and> serverUrl env \<noteq> [] then
                 (case direct_orders env of
                    DirectOk os \<Rightarrow> (os, st, [DirectFetchOrders])
                  | _ \<Rightarrow>
                      (case getAllOrders (navigator_onLine env) server st of
                         (os, st', cs) \<Rightarrow> (os, st', DirectFetchOrders # cs)))
               else getAllOrders (navigator_onLine env) server st) of
           (allOrders, st', cs) \<Rightarrow> (ui\<lparr>orders := newest_first allOrders\<rparr>, st', cs)))"

definition matches_key :: "jsval \<Rightarrow> order \<Rightarrow> bool" where
  \<comment> \<open>\<open>o._id === orderKey || String(o.id) === String(orderKey) || o.orderId === orderKey\<close>\<close>
  "matches_key key ord =
     (server_id_val ord = key \<or> String_of (id_val ord) = String_of key \<or> orderId ord = key)"

definition remote_delete ::
  "dash_env \<Rightarrow> api \<Rightarrow> order \<Rightarrow> store \<Rightarrow> store \<times> api_call list" where
  \<comment> \<open>the inner \<open>try\<close> of \<open>handleDeleteOrder\<close>; its \<open>catch\<close> only logs\<close>
  "remote_delete env server loc st =
     (case resolve_server_id server loc of
        (Inl u, cs1) \<Rightarrow> (st, cs1)
      | (Inr None, cs1) \<Rightarrow> (st, cs1)
      | (Inr (Some sid), cs1) \<Rightarrow>
          if apiDeleteOrder server sid then
            (case syncWithServer (navigator_onLine env) server st of
               (r, st', cs2) \<Rightarrow> (st', cs1 @ [DeleteOrder sid] @ cs2))
          else (st, cs1 @ [DeleteOrder sid]))"

definition handleDeleteOrder ::
  "dash_env \<Rightarrow> api \<Rightarrow> jsval \<Rightarrow> dashboard \<times> store \<Rightarrow> dashboard \<times> store \<times> api_call list" where
  "handleDeleteOrder env server orderKey acc =
     (case acc of (ui, st) \<Rightarrow>
        if \<not> isOnline env then
          (ui\<lparr>alerts := alerts ui @ [CannotDeleteWhileOffline]\<rparr>, st, [])
        else if \<not> confirm_answer env then (ui, st, [])
        else
          (let loc = find (matches_key orderKey) (orders ui);
               key = (case loc of
                        Some l \<Rightarrow> js_or (js_or (id_val l) (server_id_val l)) (orderId l)
                      | None \<Rightarrow> orderKey)
           in (case deleteOrder key st of
                 Inl e \<Rightarrow> (ui\<lparr>alerts := alerts ui @ [FailedToDeleteOrder]\<rparr>, st, [])
               | Inr (deleted, st1) \<Rightarrow>
                   (case (case loc of
                            Some l \<Rightarrow> remote_delete env server l st1
                          | None \<Rightarrow> (st1, [])) of
                      (st2, cs) \<Rightarrow>
                        (case loadData env server (ui, st2) of
                           (ui', st3, cs') \<Rightarrow> (ui', st3, cs @ cs'))))))"

section \<open>Concrete inputs\<close>

text \<open>Concrete inputs used to run the retry helpers.\<close>

definition always_fails :: "nat \<Rightarrow> nat + unit" where
  \<comment> \<open>an operation whose k-th invocation rejects with the error k\<close>
  "always_fails k = Inl k"

definition half :: "nat \<Rightarrow> real" where
  \<comment> \<open>\<open>Math.random()\<close> returning 0.5 every time\<close>
  "half k = 1 / 2"

definition negative_base :: "nat options" where
  \<comment> \<open>\<open>{ baseDelay: -1000 }\<close>, every other option at its default\<close>
  "negative_base = defaultOptions\<lparr>baseDelay := - 1000\<rparr>"

definition reject_from_second :: "nat options" where
  \<comment> \<open>\<open>{ shouldRetry: (err, attempt) => attempt < 2 }\<close>\<close>
  "reject_from_second = defaultOptions\<lparr>shouldRetry := Some (\<lambda>err attempt. attempt < 2)\<rparr>"

text \<open>Concrete inputs used to run the server locator.\<close>

definition no_server :: probe where
  \<comment> \<open>no candidate answers its health probe\<close>
  "no_server u timeout = NoAnswer"

definition three_servers :: locator where
  \<comment> \<open>the module state at load with a cloud and a LAN server configured\<close>
  "three_servers =
     initial_locator (Some ''https://pos.example.com'') (Some ''http://192.168.1.5:3001'')"

text \<open>Concrete orders, stores, servers and dashboards used to run the order store.\<close>

definition blank :: order where
  "blank = \<lparr>id_local = None, id_server = None, orderId = JUndefined, status = ''pending'',
            timestamp = 0, synced = False, dirty = False, total = 0, items = []\<rparr>"

definition order_a :: order where
  \<comment> \<open>\<open>{id: 1, orderId: 'A1', timestamp: 10, status: 'pending'}\<close>\<close>
  "order_a = blank\<lparr>id_local := Some 1, orderId := JStr ''A1'', timestamp := 10\<rparr>"

definition order_b :: order where
  \<comment> \<open>\<open>{id: 2, _id: 's2', orderId: 'A2', timestamp: 20, status: 'ready', synced: true,
      dirty: true}\<close>\<close>
  "order_b = blank\<lparr>id_local := Some 2, id_server := Some ''s2'', orderId := JStr ''A2'',
                   status := ''ready'', timestamp := 20, synced := True, dirty := True\<rparr>"

definition two_orders :: store where
  "two_orders = \<lparr>rows = [(1, order_a), (2, order_b)], next_key = 3\<rparr>"

definition all_synced :: store where
  \<comment> \<open>one record, synced and dirty, with its server identifier cached\<close>
  "all_synced = \<lparr>rows = [(2, order_b)], next_key = 3\<rparr>"

definition server_down :: api where
  \<comment> \<open>every call throws\<close>
  "server_down =
     \<lparr>apiFetchOrders = None, apiSyncOrders = (\<lambda>os. None),
      apiFetchOrderByNumber = (\<lambda>n. None), apiUpdateOrderStatus = (\<lambda>sid s. False),
      apiDeleteOrder = (\<lambda>sid. False)\<rparr>"

definition server_up :: "order list \<Rightarrow> api" where
  \<comment> \<open>every call succeeds; the server holds the given orders and echoes a bulk sync\<close>
  "server_up os =
     \<lparr>apiFetchOrders = Some os, apiSyncOrders = (\<lambda>pending. Some (ResultObject (Some pending))),
      apiFetchOrderByNumber = (\<lambda>n. Some None), apiUpdateOrderStatus = (\<lambda>sid s. True),
      apiDeleteOrder = (\<lambda>sid. True)\<rparr>"

definition offline_env :: dash_env where
  "offline_env =
     \<lparr>isOnline = False, serverUrl = ''http://localhost:3001'', navigator_onLine = False,
      confirm_answer = True, direct_orders = DirectRejected\<rparr>"

definition showing :: "order list \<Rightarrow> dashboard" where
  "showing os = \<lparr>orders = os, alerts = []\<rparr>"

definition number_clash :: store where
  \<comment> \<open>the order number of record 1 is the local key of record 2\<close>
  "number_clash =
     \<lparr>rows = [(1, blank\<lparr>id_local := Some 1, orderId := JNum 2\<rparr>),
              (2, blank\<lparr>id_local := Some 2, orderId := JNum 7\<rparr>)],
      next_key = 3\<rparr>"

definition server_id_clash :: store where
  \<comment> \<open>the order number of record 1 is the server identifier of record 2\<close>
  "server_id_clash =
     \<lparr>rows = [(1, blank\<lparr>id_local := Some 1, orderId := JStr ''A7''\<rparr>),
              (2, blank\<lparr>id_local := Some 2, id_server := Some ''A7'', orderId := JStr ''B9''\<rparr>)],
      next_key = 3\<rparr>"

definition local_dirty :: order where
  \<comment> \<open>\<open>{id: 1, orderId: 'A1', status: 'preparing', dirty: true}\<close>, not synced\<close>
  "local_dirty = blank\<lparr>id_local := Some 1, orderId := JStr ''A1'', status := ''preparing'',
                       dirty := True\<rparr>"

definition dirty_unsynced :: store where
  "dirty_unsynced = \<lparr>rows = [(1, local_dirty)], next_key = 2\<rparr>"

definition server_version :: order where
  \<comment> \<open>\<open>{id: 1, _id: 's1', status: 'pending', synced: true}\<close>, what the server holds\<close>
  "server_version = blank\<lparr>id_local := Some 1, id_server := Some ''s1'', synced := True\<rparr>"

definition server_echo :: api where
  \<comment> \<open>every call succeeds; a fetch and a bulk sync both answer with the server's version\<close>
  "server_echo =
     \<lparr>apiFetchOrders = Some [server_version],
      apiSyncOrders = (\<lambda>pending. Some (ResultObject (Some [server_version]))),
      apiFetchOrderByNumber = (\<lambda>n. Some (Some ''s1'')),
      apiUpdateOrderStatus = (\<lambda>sid s. True), apiDeleteOrder = (\<lambda>sid. True)\<rparr>"

definition remote_a :: order where
  \<comment> \<open>an order as a server sends it, with \<open>_id\<close> and no local \<open>id\<close>\<close>
  "remote_a = blank\<lparr>id_server := Some ''s1'', orderId := JStr ''A1'', timestamp := 10,
                    synced := True\<rparr>"

section \<open>Properties of the retry helper\<close>

lemma backoff_loop_calls_ge:
  "ncalls \<le> calls (backoff_loop fn opts random attempt lastError ncalls slept)"
proof (induction fn opts random attempt lastError ncalls slept rule: backoff_loop.induct)
  case (1 fn opts random attempt lastError ncalls slept)
  show ?case
    apply (subst backoff_loop.simps)
    using 1 by (auto split: sum.splits dest: Suc_leD)
qed

lemma backoff_loop_calls_gt:
  "int attempt \<le> maxAttempts opts \<Longrightarrow>
     Suc ncalls \<le> calls (backoff_loop fn opts random attempt lastError ncalls slept)"
  using backoff_loop_calls_ge[of "Suc ncalls" fn opts random "Suc attempt" _
      "slept @ [actualDelay opts random attempt]"]
  by (subst backoff_loop.simps) (auto split: sum.splits)

text \<open>
  The delays of a run in closed form: one \<open>actualDelay\<close> per invocation but the last,
  numbered by the attempt that failed before it.
\<close>

lemma backoff_loop_sleeps:
  "sleeps (backoff_loop fn opts random attempt lastError ncalls slept) =
     slept @ map (actualDelay opts random)
       [attempt ..< attempt +
          (calls (backoff_loop fn opts random attempt lastError ncalls slept) - Suc ncalls)]"
proof (induction fn opts random attempt lastError ncalls slept rule: backoff_loop.induct)
  case (1 fn opts random attempt lastError ncalls slept)
  let ?r = "backoff_loop fn opts random attempt lastError ncalls slept"
  show ?case
  proof (cases "int attempt \<le> maxAttempts opts")
    case False
    then have "?r = \<lparr>result = Thrown lastError, calls = ncalls, sleeps = slept\<rparr>"
      by (subst backoff_loop.simps) simp
    then show ?thesis by simp
  next
    case le: True
    show ?thesis
    proof (cases "fn (Suc ncalls)")
      case (Inr v)
      with le have "?r = \<lparr>result = Returned v, calls = Suc ncalls, sleeps = slept\<rparr>"
        by (subst backoff_loop.simps) simp
      then show ?thesis by simp
    next
      case (Inl err)
      show ?thesis
      proof (cases "int attempt = maxAttempts opts \<or> \<not> shouldRetryThis opts err attempt")
        case True
        with le Inl
        have "?r = \<lparr>result = Thrown (Some err), calls = Suc ncalls, sleeps = slept\<rparr>"
          by (subst backoff_loop.simps) auto
        then show ?thesis by simp
      next
        case False
        let ?r' = "backoff_loop fn opts random (Suc attempt) (Some err) (Suc ncalls)
                    (slept @ [actualDelay opts random attempt])"
        from le Inl False have step: "?r = ?r'"
          by (subst backoff_loop.simps) auto
        have ih: "sleeps ?r' =
            (slept @ [actualDelay opts random attempt]) @ map (actualDelay opts random)
              [Suc attempt ..< Suc attempt + (calls ?r' - Suc (Suc ncalls))]"
          using 1[OF le Inl False] .
        have ge: "Suc (Suc ncalls) \<le> calls ?r'"
          using le False by (intro backoff_loop_calls_gt) auto
        obtain k where k: "calls ?r' = Suc (Suc ncalls) + k"
          using ge by (metis le_Suc_ex)
        have "[attempt ..< attempt + (calls ?r' - Suc ncalls)]
           = attempt # [Suc attempt ..< Suc attempt + (calls ?r' - Suc (Suc ncalls))]"
          unfolding k by (simp add: upt_conv_Cons)
        then show ?thesis using step ih by simp
      qed
    qed
  qed
qed

text \<open>
  An operation that keeps failing: the loop runs up to the first attempt at which the
  attempts are used up or the predicate says no, and throws that attempt's error.
\<close>

lemma backoff_loop_fails:
  assumes fails: "\<And>k. fn k = Inl (e k)"
    and le: "int (ncalls + m) \<le> maxAttempts opts"
    and retry: "\<And>j. ncalls < j \<Longrightarrow> j < ncalls + m \<Longrightarrow> shouldRetryThis opts (e j) j"
    and stop: "int (ncalls + m) = maxAttempts opts
                 \<or> \<not> shouldRetryThis opts (e (ncalls + m)) (ncalls + m)"
    and m: "1 \<le> m"
  shows "result (backoff_loop fn opts random (Suc ncalls) lastError ncalls slept)
           = Thrown (Some (e (ncalls + m)))
     \<and> calls (backoff_loop fn opts random (Suc ncalls) lastError ncalls slept) = ncalls + m"
  using le retry stop m
proof (induction m arbitrary: lastError ncalls slept)
  case 0 then show ?case by simp
next
  case (Suc m)
  show ?case
  proof (cases "m = 0")
    case True
    with Suc.prems fails show ?thesis
      by (subst (1 2) backoff_loop.simps) auto
  next
    case False
    have a: "int (Suc ncalls) \<le> maxAttempts opts" using Suc.prems(1) by simp
    have b: "int (Suc ncalls) \<noteq> maxAttempts opts" using Suc.prems(1) False by simp
    have c: "shouldRetryThis opts (e (Suc ncalls)) (Suc ncalls)"
      using Suc.prems(2)[of "Suc ncalls"] False by simp
    let ?r' = "backoff_loop fn opts random (Suc (Suc ncalls)) (Some (e (Suc ncalls)))
                 (Suc ncalls) (slept @ [actualDelay opts random (Suc ncalls)])"
    have step: "backoff_loop fn opts random (Suc ncalls) lastError ncalls slept = ?r'"
      using a b c fails by (subst backoff_loop.simps) simp
    have "result ?r' = Thrown (Some (e (Suc ncalls + m))) \<and> calls ?r' = Suc ncalls + m"
    proof (rule Suc.IH)
      show "int (Suc ncalls + m) \<le> maxAttempts opts" using Suc.prems(1) by simp
      show "\<And>j. Suc ncalls < j \<Longrightarrow> j < Suc ncalls + m \<Longrightarrow> shouldRetryThis opts (e j) j"
        using Suc.prems(2) by simp
      show "int (Suc ncalls + m) = maxAttempts opts
              \<or> \<not> shouldRetryThis opts (e (Suc ncalls + m)) (Suc ncalls + m)"
        using Suc.prems(3) by simp
      show "1 \<le> m" using False by simp
    qed
    then show ?thesis using step by simp
  qed
qed

lemmas retry_eval =
  exponentialBackoff_def backoff_loop.simps defaultOptions_def shouldRetryThis_def
  actualDelay_def delay_def jitter_def always_fails_def half_def negative_base_def
  reject_from_second_def

text \<open>
  Claim C8, as the code has it. Whenever \<open>baseDelay\<close>, \<open>maxDelay\<close> and
  \<open>backoffMultiplier\<close> are not negative and \<open>Math.random()\<close> returns values in [0, 1):
  if attempt \<open>n + 1\<close> takes place (\<open>n < calls\<close>), the delay slept before it, the
  \<open>n\<close>-th delay of the run, is \<open>min(baseDelay * multiplier^(n-1), maxDelay)\<close> plus a
  jitter that is at least 0 and at most a tenth of that delay.
\<close>

theorem exponentialBackoff_delay_bounds:
  assumes nonneg: "0 \<le> baseDelay opts" "0 \<le> maxDelay opts" "0 \<le> backoffMultiplier opts"
    and rnd: "\<forall>k. 0 \<le> random k \<and> random k < 1"
    and n: "1 \<le> n" "n < calls (exponentialBackoff fn opts random)"
  shows "n - 1 < length (sleeps (exponentialBackoff fn opts random)) \<and>
         sleeps (exponentialBackoff fn opts random) ! (n - 1)
           = delay opts n + jitter opts random n \<and>
         delay opts n = min (baseDelay opts * backoffMultiplier opts ^ (n - 1)) (maxDelay opts) \<and>
         0 \<le> jitter opts random n \<and>
         jitter opts random n \<le> delay opts n / 10"
proof -
  let ?r = "exponentialBackoff fn opts random"
  obtain c where c: "calls ?r = Suc c"
    using n by (cases "calls ?r") auto
  have "sleeps ?r = map (actualDelay opts random) [1 ..< 1 + (calls ?r - Suc 0)]"
    using backoff_loop_sleeps[of fn opts random 1 None 0 "[]"]
    unfolding exponentialBackoff_def by simp
  then have sl: "sleeps ?r = map (actualDelay opts random) [1 ..< calls ?r]"
    unfolding c by simp
  have d0: "0 \<le> delay opts n"
    using nonneg by (simp add: delay_def)
  have r0: "0 \<le> random n" and r1: "random n \<le> 1"
    using rnd by (auto intro: less_imp_le)
  have j0: "0 \<le> jitter opts random n"
    using d0 r0 by (simp add: jitter_def)
  have "delay opts n * random n \<le> delay opts n * 1"
    using d0 r1 by (rule mult_left_mono[rotated])
  then have j1: "jitter opts random n \<le> delay opts n / 10"
    by (simp add: jitter_def)
  have len: "n - 1 < length (sleeps ?r)"
    using n by (simp add: sl)
  have nth: "sleeps ?r ! (n - 1) = actualDelay opts random n"
    using n by (simp add: sl)
  show ?thesis
    using len nth j0 j1 by (simp add: actualDelay_def) (simp add: delay_def)
qed

text \<open>
  Witness for C8: the defaults (1000 ms, factor 2, cap 30000 ms), an operation that always
  fails and \<open>Math.random() = 0.5\<close>; the delay before attempt 3 is 2000 + 100.
\<close>

theorem exponentialBackoff_delay_bounds_witness:
  "sleeps (exponentialBackoff always_fails defaultOptions half) ! (2 - 1) = 2100 \<and>
   delay (defaultOptions :: nat options) 2 = 2000 \<and>
   jitter (defaultOptions :: nat options) half 2 = 100"
proof -
  let ?opts = "defaultOptions :: nat options"
  have h1: "0 \<le> baseDelay ?opts" and h2: "0 \<le> maxDelay ?opts"
    and h3: "0 \<le> backoffMultiplier ?opts"
    by (simp_all add: defaultOptions_def)
  have h4: "\<forall>k. 0 \<le> half k \<and> half k < 1"
    by (simp add: half_def)
  have h5: "1 \<le> (2::nat)" by simp
  have h6: "2 < calls (exponentialBackoff always_fails ?opts half)"
    by (simp add: retry_eval)
  have "sleeps (exponentialBackoff always_fails ?opts half) ! (2 - 1)
          = delay ?opts 2 + jitter ?opts half 2"
    using exponentialBackoff_delay_bounds[OF h1 h2 h3 h4 h5 h6] by blast
  moreover have "delay ?opts 2 = 2000"
    by (simp add: defaultOptions_def delay_def)
  moreover have "jitter ?opts half 2 = 100"
    by (simp add: defaultOptions_def delay_def jitter_def half_def)
  ultimately show ?thesis by simp
qed

text \<open>
  Counterexample to C8 as stated (for every configuration): with \<open>baseDelay = -1000\<close>
  and \<open>Math.random() = 0.5\<close> the capped delay before attempt 2 is -1000 and the delay
  slept is -1050, so the jitter is -50: it is subtracted.
\<close>

theorem exponentialBackoff_negative_jitter_counterexample:
  "1 < calls (exponentialBackoff always_fails negative_base half) \<and>
   min (baseDelay negative_base * backoffMultiplier negative_base ^ (1 - 1))
       (maxDelay negative_base) = - 1000 \<and>
   sleeps (exponentialBackoff always_fails negative_base half) ! (1 - 1) = - 1050 \<and>
   sleeps (exponentialBackoff always_fails negative_base half) ! (1 - 1)
     - min (baseDelay negative_base * backoffMultiplier negative_base ^ (1 - 1))
           (maxDelay negative_base) = - 50"
  by (simp add: retry_eval)

text \<open>
  Claim C9. Let the operation fail on every attempt, and let \<open>m\<close> be the first attempt
  at which the attempts are used up (\<open>m = maxAttempts\<close>) or the predicate rejects the
  error: every earlier attempt was retryable. Then the run throws exactly the error of
  attempt \<open>m\<close>, and it invoked the operation \<open>m\<close> times, so never again after it.
\<close>

theorem exponentialBackoff_rethrows_last_error:
  assumes fails: "\<forall>k. fn k = Inl (e k)"
    and m: "1 \<le> m" "int m \<le> maxAttempts opts"
    and retry: "\<forall>j. 1 \<le> j \<and> j < m \<longrightarrow> shouldRetryThis opts (e j) j"
    and stop: "int m = maxAttempts opts \<or> \<not> shouldRetryThis opts (e m) m"
  shows "result (exponentialBackoff fn opts random) = Thrown (Some (e m)) \<and>
         calls (exponentialBackoff fn opts random) = m"
  using backoff_loop_fails[of fn e 0 m opts random None "[]"] assms
  by (simp add: exponentialBackoff_def)

text \<open>
  Witness for C9: the predicate \<open>attempt < 2\<close> rejects the error of attempt 2 while
  three more attempts would be allowed; the run throws the second error after two calls.
\<close>

theorem exponentialBackoff_rethrows_last_error_witness:
  "result (exponentialBackoff always_fails reject_from_second half) = Thrown (Some 2) \<and>
   calls (exponentialBackoff always_fails reject_from_second half) = 2"
  using exponentialBackoff_rethrows_last_error[of always_fails "\<lambda>k. k" 2 reject_from_second half]
  by (simp add: always_fails_def reject_from_second_def defaultOptions_def shouldRetryThis_def)

text \<open>
  Claim C10. \<open>simpleRetry\<close> called with \<open>attempts \<le> 0\<close> never invokes the operation
  and throws \<open>null\<close>, the initial value of \<open>lastError\<close>.
\<close>

theorem simpleRetry_nonpositive_attempts:
  "attempts \<le> 0 \<Longrightarrow>
     simpleRetry fn attempts delayMs = \<lparr>result = Thrown None, calls = 0, sleeps = []\<rparr>"
  by (simp add: simpleRetry_def simple_loop.simps)

text \<open>Witness for C10: \<open>simpleRetry(fn, 0, 1000)\<close>.\<close>

theorem simpleRetry_nonpositive_attempts_witness:
  "simpleRetry always_fails 0 1000 = \<lparr>result = Thrown None, calls = 0, sleeps = []\<rparr>"
  using simpleRetry_nonpositive_attempts[of 0 always_fails 1000] by simp

section \<open>Properties of the server locator\<close>

lemma detect_loop_all_fail:
  "\<forall>u t. probe u t \<noteq> OkJson \<Longrightarrow>
     detect_loop probe us = \<lparr>url = ''http://localhost:3001'', mode = Disconnected\<rparr>"
  by (induction us) (auto split: health_response.splits)

text \<open>
  Claim C1, as the code has it. When every health probe fails, \<open>detectServerUrl\<close>
  returns the localhost URL with mode \<open>'disconnected'\<close>; \<open>getServerUrl\<close>, when its
  cache is not fresh (so that it probes at all), returns its localhost URL with mode
  \<open>'localhost'\<close> and caches that answer.
\<close>

theorem all_probes_fail_resolution:
  assumes "\<forall>u t. probe u t \<noteq> OkJson"
  shows "detectServerUrl probe backend_env
           = \<lparr>url = ''http://localhost:3001'', mode = Disconnected\<rparr> \<and>
         (\<not> cache_fresh st now \<longrightarrow>
            getServerUrl probe onLine now st
              = (\<lparr>url = localhost (SERVER_URLS st), mode = Localhost\<rparr>,
                 st\<lparr>cachedMode := Some CLocalhost, lastCheck := now\<rparr>))"
  using assms
  by (auto simp: detectServerUrl_def detect_loop_all_fail getServerUrl_def cache_fresh_def
      probe_candidates_def isServerAvailable_def Let_def split: option.splits)

text \<open>
  Witness for C1: no server answers, the module state is the one at load (no cached
  mode) and \<open>Date.now()\<close> is 1000.
\<close>

theorem all_probes_fail_resolution_witness:
  "detectServerUrl no_server None
     = \<lparr>url = ''http://localhost:3001'', mode = Disconnected\<rparr> \<and>
   getServerUrl no_server True 1000 (initial_locator None None)
     = (\<lparr>url = ''http://localhost:3001'', mode = Localhost\<rparr>,
        (initial_locator None None)\<lparr>cachedMode := Some CLocalhost, lastCheck := 1000\<rparr>)"
proof -
  have h: "\<forall>u t. no_server u t \<noteq> OkJson" by (simp add: no_server_def)
  have c: "\<not> cache_fresh (initial_locator None None) 1000"
    by (simp add: cache_fresh_def initial_locator_def)
  show ?thesis
    using all_probes_fail_resolution[OF h, of None "initial_locator None None" 1000 True] c
    by (simp add: initial_locator_def env_or_def)
qed

text \<open>
  Counterexample to C1 as stated: the three candidates are distinct URLs, the browser is
  online, no cached mode is set and no server answers. \<open>getServerUrl\<close> probes all
  three and resolves to the localhost URL with mode \<open>'localhost'\<close>, not
  \<open>'disconnected'\<close>.
\<close>

theorem getServerUrl_all_fail_counterexample:
  "fst (getServerUrl no_server True 1000 three_servers)
     = \<lparr>url = ''http://localhost:3001'', mode = Localhost\<rparr> \<and>
   mode (fst (getServerUrl no_server True 1000 three_servers)) \<noteq> Disconnected"
  by (simp add: getServerUrl_def probe_candidates_def initial_locator_def
      isServerAvailable_def no_server_def env_or_def three_servers_def)

section \<open>Properties of the local order store\<close>

lemmas store_eval =
  blank_def order_a_def order_b_def remote_a_def two_orders_def all_synced_def server_down_def
  local_dirty_def dirty_unsynced_def server_version_def server_echo_def
  server_up_def offline_env_def showing_def number_clash_def server_id_clash_def
  empty_store_def db_get_def db_getAll_def db_put_def db_add_def db_delete_def db_clear_def
  id_val_def server_id_val_def truthy_id_def truthy_def js_or_def String_of_def digit_def
  decimal.simps newest_first_def cached_orders_def Let_def

subsection \<open>The object store\<close>

lemma map_of_upsert: "map_of (upsert k v xs) = (map_of xs)(k \<mapsto> v)"
  by (induction xs) (auto simp: fun_eq_iff)

lemma keys_upsert: "fst ` set (upsert k v xs) = insert k (fst ` set xs)"
proof -
  have "dom (map_of (upsert k v xs)) = insert k (dom (map_of xs))"
    by (simp add: map_of_upsert)
  then show ?thesis by (simp add: dom_map_of_conv_image_fst)
qed

lemma mset_upsert_fresh:
  "k \<notin> fst ` set xs \<Longrightarrow> mset (upsert k v xs) = add_mset (k, v) (mset xs)"
  by (induction xs) auto

lemma map_of_filter_key:
  "map_of (filter (\<lambda>(k', v). k' \<noteq> k) xs) = (map_of xs)(k := None)"
  by (induction xs) (auto simp: fun_eq_iff)

lemma map_of_db_delete: "map_of (rows (db_delete k st)) = (map_of (rows st))(k := None)"
  by (simp add: db_delete_def map_of_filter_key)

lemma db_put_cases:
  assumes "map_of (rows (db_put ord st)) k = Some r"
  shows "map_of (rows st) k = Some r \<or> r = ord \<or> r = ord\<lparr>id_local := Some k\<rparr>"
  using assms
  by (cases "id_local ord") (auto simp: db_put_def map_of_upsert split: if_splits)

lemma wf_store_member:
  assumes "wf_store st" and "ord \<in> set (db_getAll st)"
  shows "\<exists>k. id_local ord = Some k \<and> map_of (rows st) k = Some ord"
proof -
  from assms(2) obtain k where k: "(k, ord) \<in> set (rows st)"
    by (auto simp: db_getAll_def)
  have d: "distinct (map fst (rows st))"
    using assms(1) by (simp add: wf_store_def strict_sorted_iff)
  have "id_local ord = Some k" using assms(1) k by (auto simp: wf_store_def)
  moreover have "map_of (rows st) k = Some ord" using d k by simp
  ultimately show ?thesis by blast
qed

lemma find_order_member:
  "find_order key st = Inr (Some ord) \<Longrightarrow> ord \<in> set (db_getAll st)"
  by (auto simp: find_order_def db_get_def db_getAll_def find_Some_iff
      split: jsval.splits option.splits dest: map_of_SomeD intro: rev_image_eqI)

text \<open>
  \<open>wf_store\<close> is an invariant: the empty store has it and every operation of the
  object store and of the db service keeps it.
\<close>

lemma set_upsert: "set (upsert k v xs) \<subseteq> insert (k, v) (set xs)"
  by (induction xs) (auto split: if_splits)

lemma sorted_upsert:
  "sorted_wrt (<) (map fst xs) \<Longrightarrow> sorted_wrt (<) (map fst (upsert k v xs))"
proof (induction xs)
  case Nil
  then show ?case by simp
next
  case (Cons x xs)
  obtain k' v' where x: "x = (k', v')" by (cases x)
  have keys: "fst ` set (upsert k v xs) = insert k (fst ` set xs)" by (rule keys_upsert)
  show ?case
    using Cons keys unfolding x by (auto simp: image_iff)
qed

lemma wf_store_empty: "wf_store empty_store"
  by (simp add: wf_store_def empty_store_def)

lemma wf_store_db_put:
  assumes "wf_store st"
  shows "wf_store (db_put ord st)"
proof -
  obtain k v where r: "rows (db_put ord st) = upsert k v (rows st)"
    and v: "id_local v = Some k" and n: "k < next_key (db_put ord st)"
    and m: "next_key st \<le> next_key (db_put ord st)"
    by (cases "id_local ord") (auto simp: db_put_def)
  have "sorted_wrt (<) (map fst (rows (db_put ord st)))"
    using assms by (simp add: r wf_store_def sorted_upsert)
  moreover have "\<forall>(k', v') \<in> set (rows (db_put ord st)).
                   id_local v' = Some k' \<and> k' < next_key (db_put ord st)"
    using assms set_upsert[of k v "rows st"] v n m unfolding r wf_store_def by fastforce
  ultimately show ?thesis by (simp add: wf_store_def)
qed

lemma wf_store_db_delete: "wf_store st \<Longrightarrow> wf_store (db_delete k st)"
proof -
  assume wf: "wf_store st"
  have "map fst (filter (\<lambda>(k', v). k' \<noteq> k) (rows st)) = filter (\<lambda>k'. k' \<noteq> k) (map fst (rows st))"
    by (induction "rows st") (auto simp: filter_map comp_def split_def)
  then show ?thesis
    using wf by (auto simp: wf_store_def db_delete_def sorted_wrt_filter)
qed

lemma wf_store_db_clear: "wf_store st \<Longrightarrow> wf_store (db_clear st)"
  by (simp add: wf_store_def db_clear_def)

lemma wf_store_add_all: "wf_store st \<Longrightarrow> add_all os st = Inr st' \<Longrightarrow> wf_store st'"
proof (induction os arbitrary: st)
  case Nil
  then show ?case by simp
next
  case (Cons ord os)
  from Cons.prems(2) have "add_all os (db_put ord st) = Inr st'"
    by (auto simp: db_add_def split: sum.splits option.splits if_splits)
  then show ?case using Cons.IH wf_store_db_put[OF Cons.prems(1)] by blast
qed

lemma wf_store_getAllOrders:
  "wf_store st \<Longrightarrow> wf_store (fst (snd (getAllOrders onLine server st)))"
  using wf_store_add_all[OF wf_store_db_clear]
  by (auto simp: getAllOrders_def split: option.splits sum.splits)

lemma wf_store_updateOrderStatus:
  "wf_store st \<Longrightarrow> updateOrderStatus key s st = Inr (ord', st') \<Longrightarrow> wf_store st'"
  by (auto simp: updateOrderStatus_def Let_def wf_store_db_put split: sum.splits option.splits)

lemma wf_store_markOrderAsSynced:
  "wf_store st \<Longrightarrow> wf_store (snd (markOrderAsSynced key st))"
  by (auto simp: markOrderAsSynced_def Let_def wf_store_db_put split: option.splits)

lemma wf_store_deleteOrder:
  "wf_store st \<Longrightarrow> deleteOrder key st = Inr (gone, st') \<Longrightarrow> wf_store st'"
  by (auto simp: deleteOrder_def wf_store_db_delete split: sum.splits option.splits)

lemma wf_store_write_back: "wf_store st \<Longrightarrow> wf_store (write_back ord st)"
  by (simp add: write_back_def saveOrder_def wf_store_db_put wf_store_markOrderAsSynced)

lemma wf_store_push_dirty:
  "wf_store (fst acc) \<Longrightarrow> wf_store (fst (push_dirty server d acc))"
  by (auto simp: push_dirty_def wf_store_db_put split: prod.splits sum.splits option.splits)

lemma wf_store_fold_push_dirty:
  "wf_store (fst acc) \<Longrightarrow> wf_store (fst (fold (push_dirty server) ds acc))"
  by (induction ds arbitrary: acc) (simp_all add: wf_store_push_dirty)

lemma wf_store_fold_write_back:
  "wf_store st \<Longrightarrow> wf_store (fold write_back os st)"
  by (induction os arbitrary: st) (simp_all add: wf_store_write_back)

lemma wf_store_syncPendingOrders:
  assumes "wf_store st"
  shows "wf_store (fst (snd (syncPendingOrders onLine server st)))"
proof -
  have "wf_store (fst (push_all_dirty server (fold write_back os st)))" for os
    unfolding push_all_dirty_def
    by (rule wf_store_fold_push_dirty) (simp add: wf_store_fold_write_back assms)
  then have "push_all_dirty server (fold write_back os st) = (s, cs) \<Longrightarrow> wf_store s" for os s cs
    by (metis fst_conv)
  then show ?thesis
    using assms
    by (auto simp: syncPendingOrders_def Let_def split: option.splits prod.splits)
qed

subsection \<open>Pull path\<close>

lemma newest_first_sorted:
  "sorted_wrt (\<lambda>a b. timestamp b \<le> timestamp a) (newest_first os)"
proof -
  have "sorted (map (\<lambda>ord. - timestamp ord) (newest_first os))"
    unfolding newest_first_def by (rule sorted_sort_key)
  then show ?thesis by (simp add: sorted_map)
qed

lemma newest_first_mset: "mset (newest_first os) = mset os"
  by (simp add: newest_first_def)

text \<open>
  Claim C6. When the fetch of the pull path fails, \<open>getAllOrders\<close> leaves the store as
  it was and returns its records, all of them, sorted by timestamp descending.
\<close>

theorem getAllOrders_fetch_failure:
  assumes "apiFetchOrders server = None"
  shows "fst (snd (getAllOrders onLine server st)) = st \<and>
         fst (getAllOrders onLine server st) = newest_first (db_getAll st) \<and>
         sorted_wrt (\<lambda>a b. timestamp b \<le> timestamp a) (fst (getAllOrders onLine server st)) \<and>
         mset (fst (getAllOrders onLine server st)) = mset (db_getAll st)"
  using assms
  by (simp add: getAllOrders_def cached_orders_def newest_first_sorted newest_first_mset)

text \<open>
  Witness for C6: online, the server down, two cached orders with timestamps 10 and 20;
  the newer one comes first and the store is the same.
\<close>

theorem getAllOrders_fetch_failure_witness:
  "fst (snd (getAllOrders True server_down two_orders)) = two_orders \<and>
   fst (getAllOrders True server_down two_orders) = [order_b, order_a]"
proof -
  have h: "apiFetchOrders server_down = None" by (simp add: server_down_def)
  have "newest_first (db_getAll two_orders) = [order_b, order_a]"
    by (simp add: store_eval)
  then show ?thesis
    using getAllOrders_fetch_failure[OF h, of True two_orders] by simp
qed

text \<open>
  One \<open>add\<close> inside the transaction: the store gains the record, with whatever key it
  got, and the key generator stays above the keys.
\<close>

lemma forget_key_update_id [simp]: "forget_key (ord\<lparr>id_local := x\<rparr>) = forget_key ord"
  by (simp add: forget_key_def)

lemma db_add_forget:
  assumes "db_add ord st = Inr st'" and "keys_below st"
  shows "keys_below st' \<and>
         mset (map forget_key (db_getAll st'))
           = add_mset (forget_key ord) (mset (map forget_key (db_getAll st)))"
proof -
  obtain k v where st': "st' = \<lparr>rows = upsert k v (rows st),
                               next_key = (if next_key st \<le> k then k + 1 else next_key st)\<rparr>"
    and fresh: "k \<notin> fst ` set (rows st)" and v: "forget_key v = forget_key ord"
  proof (cases "id_local ord")
    case None
    have f: "next_key st \<notin> fst ` set (rows st)"
      using assms(2) by (auto simp: keys_below_def)
    have e: "st' = \<lparr>rows = upsert (next_key st) (ord\<lparr>id_local := Some (next_key st)\<rparr>)
                               (rows st),
                   next_key = (if next_key st \<le> next_key st then next_key st + 1
                               else next_key st)\<rparr>"
      using assms(1) None by (simp add: db_add_def db_put_def)
    show ?thesis
      by (rule that[OF e f]) simp
  next
    case (Some k)
    have f: "k \<notin> fst ` set (rows st)"
      using assms(1) Some by (auto simp: db_add_def map_of_eq_None_iff split: if_splits)
    have e: "st' = \<lparr>rows = upsert k ord (rows st),
                   next_key = (if next_key st \<le> k then k + 1 else next_key st)\<rparr>"
      using assms(1) Some by (auto simp: db_add_def db_put_def split: if_splits)
    show ?thesis
      by (rule that[OF e f]) simp
  qed
  have "mset (map forget_key (db_getAll st')) = image_mset (forget_key \<circ> snd) (mset (rows st'))"
    by (simp add: db_getAll_def)
  also have "\<dots> = add_mset (forget_key ord) (image_mset (forget_key \<circ> snd) (mset (rows st)))"
    by (simp add: st' mset_upsert_fresh[OF fresh] v)
  finally have m: "mset (map forget_key (db_getAll st'))
           = add_mset (forget_key ord) (mset (map forget_key (db_getAll st)))"
    by (simp add: db_getAll_def)
  have "keys_below st'"
    using assms(2) by (auto simp: keys_below_def st' keys_upsert)
  with m show ?thesis by simp
qed

lemma add_all_forget:
  "add_all os st = Inr st' \<Longrightarrow> keys_below st \<Longrightarrow>
     mset (map forget_key (db_getAll st'))
       = mset (map forget_key os) + mset (map forget_key (db_getAll st))"
proof (induction os arbitrary: st)
  case Nil
  then show ?case by simp
next
  case (Cons ord os)
  from Cons.prems(1) obtain st1
    where a: "db_add ord st = Inr st1" and b: "add_all os st1 = Inr st'"
    by (auto split: sum.splits)
  from db_add_forget[OF a Cons.prems(2)] Cons.IH[OF b] show ?case by simp
qed

text \<open>
  When every record brings its own key, the transaction reads nothing but the records
  of the store it starts from.
\<close>

lemma add_all_rows_only:
  "\<forall>ord \<in> set os. id_local ord \<noteq> None \<Longrightarrow> rows sa = rows sb \<Longrightarrow>
     (case add_all os sa of
        Inl e \<Rightarrow> add_all os sb = Inl e
      | Inr sa' \<Rightarrow> (\<exists>sb'. add_all os sb = Inr sb' \<and> rows sb' = rows sa'))"
proof (induction os arbitrary: sa sb)
  case Nil
  then show ?case by simp
next
  case (Cons ord os)
  obtain k where k: "id_local ord = Some k" using Cons.prems(1) by auto
  show ?case
  proof (cases "map_of (rows sa) k = None")
    case False
    then show ?thesis using k Cons.prems(2) by (simp add: db_add_def)
  next
    case True
    have a: "db_add ord sa = Inr (db_put ord sa)" and b: "db_add ord sb = Inr (db_put ord sb)"
      using True k Cons.prems(2) by (simp_all add: db_add_def)
    have r: "rows (db_put ord sa) = rows (db_put ord sb)"
      using k Cons.prems(2) by (simp add: db_put_def)
    have all: "\<forall>ord \<in> set os. id_local ord \<noteq> None" using Cons.prems(1) by simp
    show ?thesis
    proof (cases "add_all os (db_put ord sa)")
      case (Inl e)
      then show ?thesis using Cons.IH[OF all r] by (simp add: a b)
    next
      case (Inr sa')
      then show ?thesis using Cons.IH[OF all r] by (simp add: a b)
    qed
  qed
qed

text \<open>
  Claim C4, as the code has it. Pull the same remote list twice (online, the fetch
  succeeding both times). After the second pull the store holds as many records as after
  the first, and the same records up to their local keys. When every fetched record
  carries its own \<open>id\<close>, the records are identical, keys included. (A record fetched
  without \<open>id\<close> is stored under a generated key, and \<open>clear\<close> does not reset the
  generator.)
\<close>

theorem pull_twice:
  assumes fetch: "apiFetchOrders server = Some os"
  shows "length (db_getAll (fst (snd (getAllOrders True server
                 (fst (snd (getAllOrders True server st)))))))
           = length (db_getAll (fst (snd (getAllOrders True server st)))) \<and>
         mset (map forget_key (db_getAll (fst (snd (getAllOrders True server
                 (fst (snd (getAllOrders True server st))))))))
           = mset (map forget_key (db_getAll (fst (snd (getAllOrders True server st))))) \<and>
         ((\<forall>ord \<in> set os. id_local ord \<noteq> None) \<longrightarrow>
            db_getAll (fst (snd (getAllOrders True server
                 (fst (snd (getAllOrders True server st))))))
              = db_getAll (fst (snd (getAllOrders True server st))))"
proof -
  define pull where "pull s = fst (snd (getAllOrders True server s))" for s
  have pull: "\<And>s. pull s = (case add_all os (db_clear s) of Inr s' \<Rightarrow> s' | Inl e \<Rightarrow> s)"
    using fetch by (simp add: pull_def getAllOrders_def split: sum.splits)
  have kb: "\<And>s. keys_below (db_clear s)" by (simp add: keys_below_def db_clear_def)
  have m: "mset (map forget_key (db_getAll (pull (pull st))))
             = mset (map forget_key (db_getAll (pull st)))"
  proof (cases "add_all os (db_clear st)")
    case (Inl e)
    then have "pull st = st" by (simp add: pull)
    then show ?thesis by simp
  next
    case (Inr s1)
    then have p1: "pull st = s1" by (simp add: pull)
    have m1: "mset (map forget_key (db_getAll s1)) = mset (map forget_key os)"
      using add_all_forget[OF Inr kb] by (simp add: db_getAll_def db_clear_def)
    show ?thesis
    proof (cases "add_all os (db_clear s1)")
      case (Inl e)
      then have "pull s1 = s1" by (simp add: pull)
      then show ?thesis by (simp add: p1)
    next
      case s2: (Inr s2)
      then have p2: "pull s1 = s2" by (simp add: pull)
      have "mset (map forget_key (db_getAll s2)) = mset (map forget_key os)"
        using add_all_forget[OF s2 kb] by (simp add: db_getAll_def db_clear_def)
      then show ?thesis using m1 by (simp add: p1 p2)
    qed
  qed
  have l: "length (db_getAll (pull (pull st))) = length (db_getAll (pull st))"
    using arg_cong[OF m, of size] by simp
  have e: "db_getAll (pull (pull st)) = db_getAll (pull st)"
    if all: "\<forall>ord \<in> set os. id_local ord \<noteq> None"
  proof (cases "add_all os (db_clear st)")
    case (Inl e)
    then have "pull st = st" by (simp add: pull)
    then show ?thesis by simp
  next
    case (Inr s1)
    then have p1: "pull st = s1" by (simp add: pull)
    have "rows (db_clear st) = rows (db_clear s1)" by (simp add: db_clear_def)
    from add_all_rows_only[OF all this] Inr
    obtain s2 where s2: "add_all os (db_clear s1) = Inr s2" and r: "rows s2 = rows s1" by auto
    have p2: "pull s1 = s2" using s2 by (simp add: pull[of s1])
    show ?thesis unfolding p1 p2 by (simp add: r db_getAll_def)
  qed
  show ?thesis using m l e unfolding pull_def by blast
qed

lemma pull_two_orders:
  "fst (snd (getAllOrders True (server_up [order_a, order_b]) empty_store)) = two_orders"
  by (simp add: getAllOrders_def store_eval)

text \<open>
  Witness for C4: the server holds two orders with the local keys 1 and 2; the first pull
  into the empty store stores them, and the second leaves exactly these records.
\<close>

theorem pull_twice_witness:
  "db_getAll (fst (snd (getAllOrders True (server_up [order_a, order_b]) empty_store)))
     = [order_a, order_b] \<and>
   db_getAll (fst (snd (getAllOrders True (server_up [order_a, order_b])
       (fst (snd (getAllOrders True (server_up [order_a, order_b]) empty_store))))))
     = [order_a, order_b]"
proof -
  have h: "apiFetchOrders (server_up [order_a, order_b]) = Some [order_a, order_b]"
    by (simp add: server_up_def)
  have ids: "\<forall>ord \<in> set [order_a, order_b]. id_local ord \<noteq> None"
    by (simp add: store_eval)
  have first: "db_getAll (fst (snd (getAllOrders True (server_up [order_a, order_b])
                 empty_store))) = [order_a, order_b]"
    by (simp add: pull_two_orders) (simp add: two_orders_def db_getAll_def)
  show ?thesis
    using pull_twice[OF h, of empty_store] ids first by simp
qed

text \<open>
  Counterexample to C4 as stated: the server holds one order that has no local \<open>id\<close>.
  The first pull into the empty store stores it under key 1, the second pull of the same
  list under key 2: the identifiers of the record set differ.
\<close>

theorem pull_twice_new_keys_counterexample:
  "db_getAll (fst (snd (getAllOrders True (server_up [remote_a]) empty_store)))
     = [remote_a\<lparr>id_local := Some 1\<rparr>] \<and>
   db_getAll (fst (snd (getAllOrders True (server_up [remote_a])
       (fst (snd (getAllOrders True (server_up [remote_a]) empty_store))))))
     = [remote_a\<lparr>id_local := Some 2\<rparr>]"
  by (simp add: getAllOrders_def store_eval)

subsection \<open>Looking an order up by an ambiguous identifier\<close>

text \<open>
  Claim C3, as the code has it. In the status update and in the delete, a record stored
  under exactly the given local key is taken first (\<open>find_order\<close>, the lookup both
  open with); when there is none, the first record in store order is taken for which one
  of three tests holds, with no precedence among the tests: the server identifier
  equals the identifier, the order number equals it, or the local key and the identifier
  have the same string form. The record the lookup gives is the one the operation takes:
  the status update stores it with the new status and the dirty flag, the delete removes
  exactly its key, and when the lookup gives none the status update throws and the
  delete returns \<open>null\<close> with the store as it was. Mark-as-synced has no step for the
  local key: it takes the first record in store order whose local key, order number or
  server identifier equals the identifier, and stores it with the synced flag.
\<close>

theorem lookup_order_of_identifiers:
  "(map_of (rows st) k = Some ord \<longrightarrow> find_order (JNum k) st = Inr (Some ord)) \<and>
   (db_get key st = Inr None \<longrightarrow>
      find_order key st =
        Inr (find (\<lambda>x. server_id_val x = key \<or> orderId x = key \<or>
                        String_of (id_val x) = String_of key) (db_getAll st))) \<and>
   (updateOrderStatus key new_status st = Inr (ord', st') \<longrightarrow>
      (\<exists>x. find_order key st = Inr (Some x) \<and> ord' = x\<lparr>status := new_status, dirty := True\<rparr>)) \<and>
   (deleteOrder key st = Inr (Some gone, st'') \<longrightarrow> find_order key st = Inr (Some gone)) \<and>
   fst (markOrderAsSynced key st) =
     map_option (\<lambda>x. x\<lparr>synced := True\<rparr>)
       (find (\<lambda>x. id_val x = key \<or> orderId x = key \<or> server_id_val x = key) (db_getAll st)) \<and>
   (find_order key st = Inl e \<longrightarrow>
      updateOrderStatus key new_status st = Inl e \<and> deleteOrder key st = Inl e) \<and>
   (find_order key st = Inr None \<longrightarrow>
      updateOrderStatus key new_status st = Inl OrderNotFound \<and>
      deleteOrder key st = Inr (None, st)) \<and>
   (find_order key st = Inr (Some taken) \<longrightarrow>
      updateOrderStatus key new_status st
        = Inr (taken\<lparr>status := new_status, dirty := True\<rparr>,
               db_put (taken\<lparr>status := new_status, dirty := True\<rparr>) st)) \<and>
   (wf_store st \<and> find_order key st = Inr (Some taken) \<longrightarrow>
      (\<exists>kx. id_local taken = Some kx \<and> map_of (rows st) kx = Some taken \<and>
            map_of (rows (db_put (taken\<lparr>status := new_status, dirty := True\<rparr>) st))
              = (map_of (rows st))(kx \<mapsto> taken\<lparr>status := new_status, dirty := True\<rparr>) \<and>
            deleteOrder key st = Inr (Some taken, db_delete kx st) \<and>
            map_of (rows (db_delete kx st)) = (map_of (rows st))(kx := None))) \<and>
   snd (markOrderAsSynced key st) =
     (case find (\<lambda>x. id_val x = key \<or> orderId x = key \<or> server_id_val x = key)
             (db_getAll st) of
        None \<Rightarrow> st
      | Some x \<Rightarrow> db_put (x\<lparr>synced := True\<rparr>) st)"
proof (intro conjI impI)
  assume "map_of (rows st) k = Some ord"
  then show "find_order (JNum k) st = Inr (Some ord)"
    by (simp add: find_order_def db_get_def)
next
  assume "db_get key st = Inr None"
  then show "find_order key st =
        Inr (find (\<lambda>x. server_id_val x = key \<or> orderId x = key \<or>
                        String_of (id_val x) = String_of key) (db_getAll st))"
    by (simp add: find_order_def matches_any_def[abs_def])
next
  assume "updateOrderStatus key new_status st = Inr (ord', st')"
  then show "\<exists>x. find_order key st = Inr (Some x) \<and>
                 ord' = x\<lparr>status := new_status, dirty := True\<rparr>"
    by (auto simp: updateOrderStatus_def Let_def split: sum.splits option.splits)
next
  assume "deleteOrder key st = Inr (Some gone, st'')"
  then show "find_order key st = Inr (Some gone)"
    by (auto simp: deleteOrder_def split: sum.splits option.splits)
next
  show "fst (markOrderAsSynced key st) =
     map_option (\<lambda>x. x\<lparr>synced := True\<rparr>)
       (find (\<lambda>x. id_val x = key \<or> orderId x = key \<or> server_id_val x = key) (db_getAll st))"
    by (simp add: markOrderAsSynced_def matches_synced_def[abs_def] Let_def
        split: option.splits)
next
  assume "find_order key st = Inl e"
  then show "updateOrderStatus key new_status st = Inl e" and "deleteOrder key st = Inl e"
    by (simp_all add: updateOrderStatus_def deleteOrder_def)
next
  assume "find_order key st = Inr None"
  then show "updateOrderStatus key new_status st = Inl OrderNotFound"
    and "deleteOrder key st = Inr (None, st)"
    by (simp_all add: updateOrderStatus_def deleteOrder_def)
next
  assume "find_order key st = Inr (Some taken)"
  then show "updateOrderStatus key new_status st
        = Inr (taken\<lparr>status := new_status, dirty := True\<rparr>,
               db_put (taken\<lparr>status := new_status, dirty := True\<rparr>) st)"
    by (simp add: updateOrderStatus_def Let_def)
next
  assume a: "wf_store st \<and> find_order key st = Inr (Some taken)"
  then have wf: "wf_store st" and f: "find_order key st = Inr (Some taken)" by simp_all
  from wf_store_member[OF wf find_order_member[OF f]]
  obtain kx where kx: "id_local taken = Some kx" "map_of (rows st) kx = Some taken" by blast
  have u: "map_of (rows (db_put (taken\<lparr>status := new_status, dirty := True\<rparr>) st))
              = (map_of (rows st))(kx \<mapsto> taken\<lparr>status := new_status, dirty := True\<rparr>)"
    using kx(1) by (simp add: db_put_def map_of_upsert)
  have del: "deleteOrder key st = Inr (Some taken, db_delete kx st)"
    using f kx(1) by (simp add: deleteOrder_def)
  show "\<exists>kx. id_local taken = Some kx \<and> map_of (rows st) kx = Some taken \<and>
            map_of (rows (db_put (taken\<lparr>status := new_status, dirty := True\<rparr>) st))
              = (map_of (rows st))(kx \<mapsto> taken\<lparr>status := new_status, dirty := True\<rparr>) \<and>
            deleteOrder key st = Inr (Some taken, db_delete kx st) \<and>
            map_of (rows (db_delete kx st)) = (map_of (rows st))(kx := None)"
    using kx u del map_of_db_delete by blast
next
  show "snd (markOrderAsSynced key st) =
     (case find (\<lambda>x. id_val x = key \<or> orderId x = key \<or> server_id_val x = key)
             (db_getAll st) of
        None \<Rightarrow> st
      | Some x \<Rightarrow> db_put (x\<lparr>synced := True\<rparr>) st)"
    by (simp add: markOrderAsSynced_def matches_synced_def[abs_def] Let_def
        split: option.splits)
qed

text \<open>
  Witness for C3. In the store \<open>number_clash\<close> the identifier 2 is the local key of
  record 2 and the order number of record 1: the lookup of the status update and of the
  delete finds record 2, by its key, and the delete removes it. In the store
  \<open>server_id_clash\<close> no record has the key \<open>'A7'\<close>: the lookup falls through to the
  first record in store order that matches, record 1; the status update changes it and
  the delete removes it. No record matches \<open>'Z9'\<close>: the status update throws and the
  delete returns \<open>null\<close>. The identifier \<open>undefined\<close> is not a valid key.
\<close>

theorem lookup_order_of_identifiers_witness:
  "find_order (JNum 2) number_clash
     = Inr (Some (blank\<lparr>id_local := Some 2, orderId := JNum 7\<rparr>)) \<and>
   deleteOrder (JNum 2) number_clash
     = Inr (Some (blank\<lparr>id_local := Some 2, orderId := JNum 7\<rparr>),
            \<lparr>rows = [(1, blank\<lparr>id_local := Some 1, orderId := JNum 2\<rparr>)], next_key = 3\<rparr>) \<and>
   find_order (JStr ''A7'') server_id_clash
     = Inr (Some (blank\<lparr>id_local := Some 1, orderId := JStr ''A7''\<rparr>)) \<and>
   updateOrderStatus (JStr ''A7'') ''ready'' server_id_clash
     = Inr (blank\<lparr>id_local := Some 1, orderId := JStr ''A7'', status := ''ready'',
                  dirty := True\<rparr>,
            db_put (blank\<lparr>id_local := Some 1, orderId := JStr ''A7'', status := ''ready'',
                          dirty := True\<rparr>) server_id_clash) \<and>
   deleteOrder (JStr ''A7'') server_id_clash
     = Inr (Some (blank\<lparr>id_local := Some 1, orderId := JStr ''A7''\<rparr>),
            \<lparr>rows = [(2, blank\<lparr>id_local := Some 2, id_server := Some ''A7'',
                                orderId := JStr ''B9''\<rparr>)],
              next_key = 3\<rparr>) \<and>
   updateOrderStatus (JStr ''Z9'') ''ready'' server_id_clash = Inl OrderNotFound \<and>
   deleteOrder (JStr ''Z9'') server_id_clash = Inr (None, server_id_clash) \<and>
   updateOrderStatus JUndefined ''ready'' server_id_clash = Inl DataError \<and>
   deleteOrder JUndefined server_id_clash = Inl DataError"
proof -
  let ?r1 = "blank\<lparr>id_local := Some 1, orderId := JStr ''A7''\<rparr>"
  let ?r2 = "blank\<lparr>id_local := Some 2, orderId := JNum 7\<rparr>"
  let ?left = "\<lparr>rows = [(1, blank\<lparr>id_local := Some 1, orderId := JNum 2\<rparr>)], next_key = 3\<rparr>"
  have h1: "map_of (rows number_clash) 2 = Some ?r2"
    by (simp add: number_clash_def)
  have h2: "db_get (JStr ''A7'') server_id_clash = Inr None"
    and h2': "db_get (JStr ''Z9'') server_id_clash = Inr None"
    by (simp_all add: db_get_def)
  have f: "find (\<lambda>x. server_id_val x = JStr ''A7'' \<or> orderId x = JStr ''A7'' \<or>
                      String_of (id_val x) = String_of (JStr ''A7'')) (db_getAll server_id_clash)
             = Some ?r1"
    and f': "find (\<lambda>x. server_id_val x = JStr ''Z9'' \<or> orderId x = JStr ''Z9'' \<or>
                      String_of (id_val x) = String_of (JStr ''Z9'')) (db_getAll server_id_clash)
             = None"
    by (simp_all add: store_eval)
  have wf1: "wf_store number_clash" and wf2: "wf_store server_id_clash"
    by (simp_all add: wf_store_def store_eval)
  have c1: "find_order (JNum 2) number_clash = Inr (Some ?r2)"
    using lookup_order_of_identifiers[where st = number_clash and k = 2 and ord = ?r2] h1
    by blast
  have c2: "find_order (JStr ''A7'') server_id_clash = Inr (Some ?r1)"
    using lookup_order_of_identifiers[where st = server_id_clash and key = "JStr ''A7''"] h2 f
    by simp
  have c2': "find_order (JStr ''Z9'') server_id_clash = Inr None"
    using lookup_order_of_identifiers[where st = server_id_clash and key = "JStr ''Z9''"] h2' f'
    by simp
  have c3: "find_order JUndefined server_id_clash = Inl DataError"
    by (simp add: find_order_def db_get_def)
  note t1 = lookup_order_of_identifiers[where st = number_clash and key = "JNum 2"
      and taken = ?r2 and new_status = "''ready''"]
  note t2 = lookup_order_of_identifiers[where st = server_id_clash and key = "JStr ''A7''"
      and taken = ?r1 and new_status = "''ready''"]
  note t3 = lookup_order_of_identifiers[where st = server_id_clash and key = "JStr ''Z9''"
      and new_status = "''ready''"]
  note t4 = lookup_order_of_identifiers[where st = server_id_clash and key = JUndefined
      and new_status = "''ready''" and e = DataError]
  have d1: "\<exists>kx. id_local ?r2 = Some kx \<and>
              deleteOrder (JNum 2) number_clash = Inr (Some ?r2, db_delete kx number_clash)"
    using t1 wf1 c1 by blast
  have d1': "deleteOrder (JNum 2) number_clash = Inr (Some ?r2, ?left)"
    using d1 by (auto simp: store_eval)
  have u2: "updateOrderStatus (JStr ''A7'') ''ready'' server_id_clash
     = Inr (?r1\<lparr>status := ''ready'', dirty := True\<rparr>,
            db_put (?r1\<lparr>status := ''ready'', dirty := True\<rparr>) server_id_clash)"
    using t2 c2 by blast
  have d2: "\<exists>kx. id_local ?r1 = Some kx \<and>
              deleteOrder (JStr ''A7'') server_id_clash
                = Inr (Some ?r1, db_delete kx server_id_clash)"
    using t2 wf2 c2 by blast
  have d2': "deleteOrder (JStr ''A7'') server_id_clash
     = Inr (Some ?r1,
            \<lparr>rows = [(2, blank\<lparr>id_local := Some 2, id_server := Some ''A7'',
                                orderId := JStr ''B9''\<rparr>)],
              next_key = 3\<rparr>)"
    using d2 by (auto simp: store_eval)
  have n3: "updateOrderStatus (JStr ''Z9'') ''ready'' server_id_clash = Inl OrderNotFound"
    "deleteOrder (JStr ''Z9'') server_id_clash = Inr (None, server_id_clash)"
    using t3 c2' by blast+
  have e4: "updateOrderStatus JUndefined ''ready'' server_id_clash = Inl DataError"
    "deleteOrder JUndefined server_id_clash = Inl DataError"
    using t4 c3 by blast+
  show ?thesis using c1 c2 d1' u2 d2' n3 e4 by (simp add: blank_def)
qed

text \<open>
  Counterexample to C3 as stated. On the same store and identifier, mark-as-synced takes
  record 1, whose order number is 2, although record 2 has the local key 2. In the store
  \<open>server_id_clash\<close> the identifier \<open>'A7'\<close> is the order number of record 1 and the
  server identifier of record 2, and the status update changes record 1. The string
  \<open>'2'\<close> finds record 2 of \<open>number_clash\<close> through the string form of its local key,
  not record 1 with the order number 2: the order number is compared strictly.
\<close>

theorem lookup_precedence_counterexample:
  "fst (markOrderAsSynced (JNum 2) number_clash)
     = Some (blank\<lparr>id_local := Some 1, orderId := JNum 2, synced := True\<rparr>) \<and>
   map_of (rows number_clash) 2 = Some (blank\<lparr>id_local := Some 2, orderId := JNum 7\<rparr>) \<and>
   updateOrderStatus (JStr ''A7'') ''ready'' server_id_clash
     = Inr (blank\<lparr>id_local := Some 1, orderId := JStr ''A7'', status := ''ready'',
                  dirty := True\<rparr>,
            \<lparr>rows = [(1, blank\<lparr>id_local := Some 1, orderId := JStr ''A7'', status := ''ready'',
                                dirty := True\<rparr>),
                     (2, blank\<lparr>id_local := Some 2, id_server := Some ''A7'',
                                orderId := JStr ''B9''\<rparr>)],
              next_key = 3\<rparr>) \<and>
   find_order (JStr ''2'') number_clash
     = Inr (Some (blank\<lparr>id_local := Some 2, orderId := JNum 7\<rparr>))"
  by (simp add: markOrderAsSynced_def matches_synced_def updateOrderStatus_def find_order_def
      matches_any_def store_eval)

subsection \<open>Deleting from the dashboard\<close>

text \<open>
  Claim C7. \<open>handleDeleteOrder\<close> called while the network context says offline shows the
  alert that deleting is not possible offline and does nothing else: the store is
  unchanged, no request is made and the order list on screen stays.
\<close>

theorem handleDeleteOrder_offline:
  "\<not> isOnline env \<Longrightarrow>
     handleDeleteOrder env server orderKey (ui, st)
       = (ui\<lparr>alerts := alerts ui @ [CannotDeleteWhileOffline]\<rparr>, st, [])"
  by (simp add: handleDeleteOrder_def)

text \<open>Witness for C7: offline, two orders stored and shown, delete of order 1.\<close>

theorem handleDeleteOrder_offline_witness:
  "handleDeleteOrder offline_env (server_up []) (JNum 1) (showing [order_a, order_b], two_orders)
     = (\<lparr>orders = [order_a, order_b], alerts = [CannotDeleteWhileOffline]\<rparr>, two_orders, [])"
proof -
  have h: "\<not> isOnline offline_env" by (simp add: offline_env_def)
  show ?thesis
    using handleDeleteOrder_offline[OF h, of "server_up []" "JNum 1"
        "showing [order_a, order_b]" two_orders]
    by (simp add: showing_def)
qed

subsection \<open>Push path\<close>

text \<open>
  The early return of \<open>syncPendingOrders\<close>: online and with no unsynced record it
  reports 0 synced, whatever the store holds, and does nothing.
\<close>

lemma syncPendingOrders_nothing_unsynced:
  "getUnsyncedOrders st = [] \<Longrightarrow>
     syncPendingOrders True server st
       = (\<lparr>success = True, synced_count = Some 0, message = None\<rparr>, st, [])"
  by (simp add: syncPendingOrders_def)

text \<open>
  Claim C2 at its failing input: the store holds one record, synced and dirty, with its
  server identifier cached; the browser is online and every server call would succeed.
  \<open>syncPendingOrders\<close> finds no unsynced record and returns before the dirty step: it
  reports success with 0 synced, makes no call and leaves the record dirty. The dirty
  step itself, run on that store, pushes the status and clears the flag.
\<close>

theorem syncPendingOrders_skips_dirty:
  "syncPendingOrders True (server_up []) all_synced
     = (\<lparr>success = True, synced_count = Some 0, message = None\<rparr>, all_synced, []) \<and>
   push_all_dirty (server_up []) all_synced
     = (\<lparr>rows = [(2, order_b\<lparr>dirty := False\<rparr>)], next_key = 3\<rparr>,
        [UpdateOrderStatus ''s2'' ''ready''])"
  by (simp add: syncPendingOrders_def getUnsyncedOrders_def push_all_dirty_def push_dirty_def
      resolve_server_id_def store_eval)

text \<open>
  One turn of the dirty loop either leaves the store alone or, after a status update
  that the server accepted, writes the record back with the flag cleared.
\<close>

lemma push_dirty_cases:
  assumes "push_dirty server d (st, cs) = (st', cs')"
  shows "set cs \<subseteq> set cs' \<and>
         (st' = st \<or>
          (\<exists>sid. fst (resolve_server_id server d) = Inr (Some sid) \<and>
                 apiUpdateOrderStatus server sid (status d) \<and>
                 UpdateOrderStatus sid (status d) \<in> set cs' \<and>
                 st' = db_put (d\<lparr>dirty := False\<rparr>) st))"
  using assms
  by (auto simp: push_dirty_def split: prod.splits sum.splits option.splits if_splits)

text \<open>
  The whole loop: a record found under key \<open>k\<close> afterwards was there before, or it is
  one of the loop's records, pushed and written back.
\<close>

lemma fold_push_dirty:
  assumes "fold (push_dirty server) ds (st, cs) = (st', cs')"
    and "\<forall>d \<in> set ds. id_local d \<noteq> None"
    and "map_of (rows st') k = Some r"
  shows "set cs \<subseteq> set cs' \<and>
         (map_of (rows st) k = Some r \<or>
          (\<exists>d \<in> set ds. id_local d = Some k \<and> r = d\<lparr>dirty := False\<rparr> \<and>
             (\<exists>sid. fst (resolve_server_id server d) = Inr (Some sid) \<and>
                    apiUpdateOrderStatus server sid (status d) \<and>
                    UpdateOrderStatus sid (status d) \<in> set cs')))"
  using assms
proof (induction ds arbitrary: st cs)
  case Nil
  then show ?case by simp
next
  case (Cons d ds)
  obtain st1 cs1 where step: "push_dirty server d (st, cs) = (st1, cs1)"
    by (cases "push_dirty server d (st, cs)")
  have rest: "fold (push_dirty server) ds (st1, cs1) = (st', cs')"
    using Cons.prems(1) step by simp
  have ids: "\<forall>d \<in> set ds. id_local d \<noteq> None" using Cons.prems(2) by simp
  note ih = Cons.IH[OF rest ids Cons.prems(3)]
  note pc = push_dirty_cases[OF step]
  have sub: "set cs \<subseteq> set cs'" using ih pc by blast
  from ih have "map_of (rows st1) k = Some r \<or>
          (\<exists>d \<in> set ds. id_local d = Some k \<and> r = d\<lparr>dirty := False\<rparr> \<and>
             (\<exists>sid. fst (resolve_server_id server d) = Inr (Some sid) \<and>
                    apiUpdateOrderStatus server sid (status d) \<and>
                    UpdateOrderStatus sid (status d) \<in> set cs'))" by blast
  then show ?case
  proof
    assume at1: "map_of (rows st1) k = Some r"
    from pc have "st1 = st \<or>
          (\<exists>sid. fst (resolve_server_id server d) = Inr (Some sid) \<and>
                 apiUpdateOrderStatus server sid (status d) \<and>
                 UpdateOrderStatus sid (status d) \<in> set cs1 \<and>
                 st1 = db_put (d\<lparr>dirty := False\<rparr>) st)" by blast
    then show ?thesis
    proof
      assume "st1 = st"
      with at1 sub show ?thesis by simp
    next
      assume "\<exists>sid. fst (resolve_server_id server d) = Inr (Some sid) \<and>
                 apiUpdateOrderStatus server sid (status d) \<and>
                 UpdateOrderStatus sid (status d) \<in> set cs1 \<and>
                 st1 = db_put (d\<lparr>dirty := False\<rparr>) st"
      then obtain sid where sid: "fst (resolve_server_id server d) = Inr (Some sid)"
        "apiUpdateOrderStatus server sid (status d)"
        "UpdateOrderStatus sid (status d) \<in> set cs1"
        "st1 = db_put (d\<lparr>dirty := False\<rparr>) st" by blast
      obtain kd where kd: "id_local d = Some kd" using Cons.prems(2) by auto
      have m: "map_of (rows st1) = (map_of (rows st))(kd \<mapsto> d\<lparr>dirty := False\<rparr>)"
        using sid(4) kd by (simp add: db_put_def map_of_upsert)
      have in': "UpdateOrderStatus sid (status d) \<in> set cs'" using sid(3) ih by blast
      show ?thesis
      proof (cases "k = kd")
        case True
        then have "r = d\<lparr>dirty := False\<rparr>" using at1 m by simp
        with True kd sid in' sub show ?thesis by auto
      next
        case False
        then have "map_of (rows st) k = Some r" using at1 m by simp
        with sub show ?thesis by simp
      qed
    qed
  next
    assume "\<exists>d \<in> set ds. id_local d = Some k \<and> r = d\<lparr>dirty := False\<rparr> \<and>
             (\<exists>sid. fst (resolve_server_id server d) = Inr (Some sid) \<and>
                    apiUpdateOrderStatus server sid (status d) \<and>
                    UpdateOrderStatus sid (status d) \<in> set cs')"
    with sub show ?thesis by auto
  qed
qed

text \<open>
  What the bulk step can leave under a key: the record that was there, possibly marked
  synced, or a copy of an order the server returned.
\<close>

lemma server_copy_dirty:
  assumes "server_copy sent r"
  shows "dirty r = dirty sent"
proof -
  have "dirty (r\<lparr>id_local := None, synced := True\<rparr>)
          = dirty (sent\<lparr>id_local := None, synced := True\<rparr>)"
    using assms by (simp add: server_copy_def)
  then show ?thesis by simp
qed

lemma server_copy_synced: "server_copy sent r \<Longrightarrow> server_copy sent (r\<lparr>synced := True\<rparr>)"
  by (simp add: server_copy_def)

lemma markOrderAsSynced_cases:
  assumes wf: "wf_store st" and "map_of (rows (snd (markOrderAsSynced key st))) k = Some r"
  shows "\<exists>x. map_of (rows st) k = Some x \<and> (r = x \<or> r = x\<lparr>synced := True\<rparr>)"
proof (cases "find (matches_synced key) (db_getAll st)")
  case None
  then show ?thesis using assms(2) by (simp add: markOrderAsSynced_def)
next
  case (Some x)
  then have "x \<in> set (db_getAll st)" by (auto simp: find_Some_iff)
  from wf_store_member[OF wf this]
  obtain kx where kx: "id_local x = Some kx" "map_of (rows st) kx = Some x" by blast
  have "map_of (rows (snd (markOrderAsSynced key st)))
          = (map_of (rows st))(kx \<mapsto> x\<lparr>synced := True\<rparr>)"
    using Some kx(1) by (simp add: markOrderAsSynced_def Let_def db_put_def map_of_upsert)
  then show ?thesis using kx(2) assms(2) by (auto split: if_splits)
qed

lemma write_back_cases:
  assumes wf: "wf_store st" and r: "map_of (rows (write_back sent st)) k = Some r"
  shows "(\<exists>x. map_of (rows st) k = Some x \<and> (r = x \<or> r = x\<lparr>synced := True\<rparr>)) \<or> server_copy sent r"
proof -
  let ?s1 = "snd (markOrderAsSynced (js_or (js_or (orderId sent) (server_id_val sent)) (id_val sent)) st)"
  have "map_of (rows (db_put sent ?s1)) k = Some r"
    using r by (simp add: write_back_def saveOrder_def)
  from db_put_cases[OF this]
  show ?thesis
  proof (elim disjE)
    assume "map_of (rows ?s1) k = Some r"
    from markOrderAsSynced_cases[OF wf this] show ?thesis by blast
  next
    assume "r = sent" then show ?thesis by (simp add: server_copy_def)
  next
    assume "r = sent\<lparr>id_local := Some k\<rparr>" then show ?thesis by (simp add: server_copy_def)
  qed
qed

lemma fold_write_back_cases:
  assumes "wf_store st" and "map_of (rows (fold write_back os st)) k = Some r"
  shows "(\<exists>x. map_of (rows st) k = Some x \<and> (r = x \<or> r = x\<lparr>synced := True\<rparr>)) \<or>
         (\<exists>sent \<in> set os. server_copy sent r)"
  using assms
proof (induction os arbitrary: st)
  case Nil
  then show ?case by simp
next
  case (Cons sent os)
  have wf1: "wf_store (write_back sent st)" by (rule wf_store_write_back[OF Cons.prems(1)])
  have "map_of (rows (fold write_back os (write_back sent st))) k = Some r"
    using Cons.prems(2) by simp
  from Cons.IH[OF wf1 this]
  show ?case
  proof
    assume "\<exists>x. map_of (rows (write_back sent st)) k = Some x \<and> (r = x \<or> r = x\<lparr>synced := True\<rparr>)"
    then obtain x where x: "map_of (rows (write_back sent st)) k = Some x"
      and rx: "r = x \<or> r = x\<lparr>synced := True\<rparr>" by blast
    from write_back_cases[OF Cons.prems(1) x]
    show ?thesis
    proof
      assume "\<exists>y. map_of (rows st) k = Some y \<and> (x = y \<or> x = y\<lparr>synced := True\<rparr>)"
      then show ?thesis using rx by auto
    next
      assume "server_copy sent x"
      then have "server_copy sent r" using rx server_copy_synced by blast
      then show ?thesis by auto
    qed
  next
    assume "\<exists>sent \<in> set os. server_copy sent r"
    then show ?thesis by auto
  qed
qed


lemma push_dirty_turn:
  "(fst (resolve_server_id server x) = Inr (Some sid) \<and> apiUpdateOrderStatus server sid (status x) \<longrightarrow>
      push_dirty server x (s, cs0)
        = (db_put (x\<lparr>dirty := False\<rparr>) s,
           cs0 @ snd (resolve_server_id server x) @ [UpdateOrderStatus sid (status x)])) \<and>
   (fst (push_dirty server x (s, cs0)) \<noteq> s \<longrightarrow>
      (\<exists>sid. fst (resolve_server_id server x) = Inr (Some sid) \<and>
             apiUpdateOrderStatus server sid (status x) \<and>
             last (snd (push_dirty server x (s, cs0))) = UpdateOrderStatus sid (status x)))"
  by (auto simp: push_dirty_def split: prod.splits sum.splits option.splits)

lemma syncPendingOrders_dirty:
  assumes wf: "wf_store st" and d: "map_of (rows st) k = Some d" "dirty d"
    and run: "syncPendingOrders onLine server st = (rep, st', cs)"
    and r: "map_of (rows st') k = Some r" "\<not> dirty r"
  shows "(\<exists>sid. fst (resolve_server_id server r) = Inr (Some sid) \<and>
                apiUpdateOrderStatus server sid (status r) \<and>
                UpdateOrderStatus sid (status r) \<in> set cs) \<or>
         (\<exists>res sent. apiSyncOrders server (getUnsyncedOrders st) = Some res \<and>
                     sent \<in> set (synced_orders_of res) \<and> server_copy sent r)"
proof -
  have changed: "st' \<noteq> st" using d r by auto
  then obtain res where res: "apiSyncOrders server (getUnsyncedOrders st) = Some res"
    using run by (auto simp: syncPendingOrders_def Let_def split: if_splits option.splits)
  let ?st1 = "fold write_back (synced_orders_of res) st"
  obtain cs0 where p: "push_all_dirty server ?st1 = (st', cs0)"
    and cs: "cs = SyncOrders (getUnsyncedOrders st) # cs0"
    using run res changed
    by (auto simp: syncPendingOrders_def Let_def split: if_splits prod.splits)
  have wf1: "wf_store ?st1" by (rule wf_store_fold_write_back[OF wf])
  let ?ds = "filter dirty (db_getAll ?st1)"
  have ids: "\<forall>x \<in> set ?ds. id_local x \<noteq> None"
    using wf_store_member[OF wf1] by fastforce
  have f: "fold (push_dirty server) ?ds (?st1, []) = (st', cs0)"
    using p by (simp add: push_all_dirty_def)
  from fold_push_dirty[OF f ids r(1)]
  have "map_of (rows ?st1) k = Some r \<or>
        (\<exists>x \<in> set ?ds. id_local x = Some k \<and> r = x\<lparr>dirty := False\<rparr> \<and>
             (\<exists>sid. fst (resolve_server_id server x) = Inr (Some sid) \<and>
                    apiUpdateOrderStatus server sid (status x) \<and>
                    UpdateOrderStatus sid (status x) \<in> set cs0))" by blast
  then show ?thesis
  proof
    assume at1: "map_of (rows ?st1) k = Some r"
    from fold_write_back_cases[OF wf at1]
    show ?thesis
    proof
      assume "\<exists>x. map_of (rows st) k = Some x \<and> (r = x \<or> r = x\<lparr>synced := True\<rparr>)"
      then have "dirty r" using d by auto
      with r(2) show ?thesis by simp
    next
      assume "\<exists>sent \<in> set (synced_orders_of res). server_copy sent r"
      with res show ?thesis by blast
    qed
  next
    assume "\<exists>x \<in> set ?ds. id_local x = Some k \<and> r = x\<lparr>dirty := False\<rparr> \<and>
             (\<exists>sid. fst (resolve_server_id server x) = Inr (Some sid) \<and>
                    apiUpdateOrderStatus server sid (status x) \<and>
                    UpdateOrderStatus sid (status x) \<in> set cs0)"
    then obtain x sid where "r = x\<lparr>dirty := False\<rparr>"
      "fst (resolve_server_id server x) = Inr (Some sid)"
      "apiUpdateOrderStatus server sid (status x)" "UpdateOrderStatus sid (status x) \<in> set cs0"
      by blast
    moreover have "resolve_server_id server (x\<lparr>dirty := False\<rparr>) = resolve_server_id server x"
      by (simp add: resolve_server_id_def split: option.splits)
    ultimately have "fst (resolve_server_id server r) = Inr (Some sid) \<and>
               apiUpdateOrderStatus server sid (status r) \<and>
               UpdateOrderStatus sid (status r) \<in> set cs"
      by (simp add: cs)
    then show ?thesis by blast
  qed
qed

lemma getAllOrders_dirty:
  assumes d: "map_of (rows st) k = Some d" "dirty d"
    and run: "getAllOrders onLine server st = (shown, st', cs)"
    and r: "map_of (rows st') k = Some r" "\<not> dirty r"
  shows "\<exists>os sent. apiFetchOrders server = Some os \<and> sent \<in> set os \<and>
                    forget_key r = forget_key sent"
proof -
  have changed: "st' \<noteq> st" using d r by auto
  then obtain os where os: "apiFetchOrders server = Some os"
    and a: "add_all os (db_clear st) = Inr st'"
    using run by (auto simp: getAllOrders_def split: if_splits option.splits sum.splits)
  have kb: "keys_below (db_clear st)" by (simp add: keys_below_def db_clear_def)
  have "mset (map forget_key (db_getAll st')) = mset (map forget_key os)"
    using add_all_forget[OF a kb] by (simp add: db_getAll_def db_clear_def)
  then have "set (map forget_key (db_getAll st')) = set (map forget_key os)"
    by (rule mset_eq_setD)
  moreover have "r \<in> set (db_getAll st')"
    using r(1) by (auto simp: db_getAll_def dest: map_of_SomeD intro: rev_image_eqI)
  ultimately have "forget_key r \<in> forget_key ` set os" by auto
  with os show ?thesis by blast
qed

lemma deleteOrder_others:
  assumes "deleteOrder key st = Inr (gone, st')" and "map_of (rows st') k = Some r"
  shows "map_of (rows st) k = Some r"
  using assms
  by (auto simp: deleteOrder_def map_of_db_delete split: sum.splits option.splits if_splits)

text \<open>
  Claim C5, as the code has it, on a store as the object store keeps it (\<open>wf_store\<close>).
  The local status update returns whenever its lookup finds the order, and then it has
  stored the order with the new status and \<open>dirty = true\<close>. Mark-as-synced leaves every
  dirty flag as it is. The dirty step of the pending-orders sync clears the flag of a
  record exactly when the server update call for its resolved identifier and its status
  returned success, as the call just before the write; a record that was dirty before
  the step and is stored not dirty after it is the same record with only that flag
  changed. Over a whole run of the pending-orders sync, a record that was dirty and is
  stored not dirty afterwards either had its stored status pushed by a server update
  call, for its resolved identifier, that returned success, or is a copy of an order the
  bulk call returned, written over it with no status push. After a pull such a record is a copy of a fetched order.
  After \<open>saveOrder\<close> it is the saved order, and a delete changes no record it leaves.
\<close>

theorem dirty_flag_discipline:
  assumes wf: "wf_store st"
  shows "(find_order key st = Inr (Some found) \<longrightarrow>
            (\<exists>st'. updateOrderStatus key new_status st
                    = Inr (found\<lparr>status := new_status, dirty := True\<rparr>, st'))) \<and>
         (updateOrderStatus key new_status st = Inr (ord', st') \<longrightarrow>
            status ord' = new_status \<and> dirty ord' \<and>
            (\<exists>k. id_local ord' = Some k \<and> map_of (rows st') k = Some ord')) \<and>
         map_option dirty (map_of (rows (snd (markOrderAsSynced key st))) k)
           = map_option dirty (map_of (rows st) k) \<and>
         (map_of (rows st) k = Some d \<and> dirty d \<and>
          push_all_dirty server st = (st2, cs) \<and>
          map_of (rows st2) k = Some r \<and> \<not> dirty r \<longrightarrow>
            r = d\<lparr>dirty := False\<rparr> \<and>
            (\<exists>sid. fst (resolve_server_id server d) = Inr (Some sid) \<and>
                   apiUpdateOrderStatus server sid (status d) \<and>
                   UpdateOrderStatus sid (status d) \<in> set cs)) \<and>
         (fst (resolve_server_id server x) = Inr (Some sid) \<and>
          apiUpdateOrderStatus server sid (status x) \<longrightarrow>
            push_dirty server x (s, cs0)
              = (db_put (x\<lparr>dirty := False\<rparr>) s,
                 cs0 @ snd (resolve_server_id server x) @ [UpdateOrderStatus sid (status x)])) \<and>
         (fst (push_dirty server x (s, cs0)) \<noteq> s \<longrightarrow>
            (\<exists>sid. fst (resolve_server_id server x) = Inr (Some sid) \<and>
                   apiUpdateOrderStatus server sid (status x) \<and>
                   last (snd (push_dirty server x (s, cs0))) = UpdateOrderStatus sid (status x))) \<and>
         (map_of (rows st) k = Some d \<and> dirty d \<and>
          syncPendingOrders onLine server st = (rep, st3, cs3) \<and>
          map_of (rows st3) k = Some r3 \<and> \<not> dirty r3 \<longrightarrow>
            (\<exists>sid. fst (resolve_server_id server r3) = Inr (Some sid) \<and>
                   apiUpdateOrderStatus server sid (status r3) \<and>
                   UpdateOrderStatus sid (status r3) \<in> set cs3) \<or>
            (\<exists>res sent. apiSyncOrders server (getUnsyncedOrders st) = Some res \<and>
                        sent \<in> set (synced_orders_of res) \<and> server_copy sent r3)) \<and>
         (map_of (rows st) k = Some d \<and> dirty d \<and>
          getAllOrders onLine server st = (shown, st4, cs4) \<and>
          map_of (rows st4) k = Some r4 \<and> \<not> dirty r4 \<longrightarrow>
            (\<exists>os sent. apiFetchOrders server = Some os \<and> sent \<in> set os \<and>
                       forget_key r4 = forget_key sent)) \<and>
         (map_of (rows st) k = Some d \<and> dirty d \<and>
          map_of (rows (saveOrder saved st)) k = Some r5 \<and> \<not> dirty r5 \<longrightarrow>
            r5 = saved \<or> r5 = saved\<lparr>id_local := Some k\<rparr>) \<and>
         (deleteOrder key st = Inr (gone, st6) \<and> map_of (rows st6) k = Some r6 \<longrightarrow>
            map_of (rows st) k = Some r6)"
proof (intro conjI impI)
  assume "find_order key st = Inr (Some found)"
  then show "\<exists>st'. updateOrderStatus key new_status st
                 = Inr (found\<lparr>status := new_status, dirty := True\<rparr>, st')"
    by (simp add: updateOrderStatus_def Let_def)
next
  assume u: "updateOrderStatus key new_status st = Inr (ord', st')"
  then obtain ord where f: "find_order key st = Inr (Some ord)"
    and o': "ord' = ord\<lparr>status := new_status, dirty := True\<rparr>"
    and s': "st' = db_put ord' st"
    by (auto simp: updateOrderStatus_def Let_def split: sum.splits option.splits)
  from wf_store_member[OF wf find_order_member[OF f]]
  obtain k where k: "id_local ord = Some k" by blast
  show "status ord' = new_status" by (simp add: o')
  show "dirty ord'" by (simp add: o')
  have "id_local ord' = Some k" using k by (simp add: o')
  moreover from this have "map_of (rows st') k = Some ord'"
    by (simp add: s' db_put_def map_of_upsert)
  ultimately show "\<exists>k. id_local ord' = Some k \<and> map_of (rows st') k = Some ord'" by blast
next
  show "map_option dirty (map_of (rows (snd (markOrderAsSynced key st))) k)
           = map_option dirty (map_of (rows st) k)"
  proof (cases "find (matches_synced key) (db_getAll st)")
    case None
    then show ?thesis by (simp add: markOrderAsSynced_def)
  next
    case (Some x)
    then have "x \<in> set (db_getAll st)" by (auto simp: find_Some_iff)
    from wf_store_member[OF wf this]
    obtain kx where kx: "id_local x = Some kx" "map_of (rows st) kx = Some x" by blast
    have "map_of (rows (snd (markOrderAsSynced key st)))
            = (map_of (rows st))(kx \<mapsto> x\<lparr>synced := True\<rparr>)"
      using Some kx(1) by (simp add: markOrderAsSynced_def Let_def db_put_def map_of_upsert)
    then show ?thesis using kx(2) by simp
  qed
next
  assume a: "map_of (rows st) k = Some d \<and> dirty d \<and>
          push_all_dirty server st = (st2, cs) \<and>
          map_of (rows st2) k = Some r \<and> \<not> dirty r"
  let ?ds = "filter dirty (db_getAll st)"
  have ids: "\<forall>x \<in> set ?ds. id_local x \<noteq> None"
    using wf_store_member[OF wf] by fastforce
  have f: "fold (push_dirty server) ?ds (st, []) = (st2, cs)"
    using a by (simp add: push_all_dirty_def)
  from fold_push_dirty[OF f ids, of k r] a
  obtain x where x: "x \<in> set ?ds" "id_local x = Some k" "r = x\<lparr>dirty := False\<rparr>"
    "\<exists>sid. fst (resolve_server_id server x) = Inr (Some sid) \<and>
                    apiUpdateOrderStatus server sid (status x) \<and>
                    UpdateOrderStatus sid (status x) \<in> set cs"
    by auto
  from wf_store_member[OF wf, of x] x(1,2) have "map_of (rows st) k = Some x" by auto
  then have "x = d" using a by simp
  with x show "r = d\<lparr>dirty := False\<rparr>"
    and "\<exists>sid. fst (resolve_server_id server d) = Inr (Some sid) \<and>
                   apiUpdateOrderStatus server sid (status d) \<and>
                   UpdateOrderStatus sid (status d) \<in> set cs" by simp_all
next
  assume "fst (resolve_server_id server x) = Inr (Some sid) \<and>
          apiUpdateOrderStatus server sid (status x)"
  then show "push_dirty server x (s, cs0)
              = (db_put (x\<lparr>dirty := False\<rparr>) s,
                 cs0 @ snd (resolve_server_id server x) @ [UpdateOrderStatus sid (status x)])"
    using push_dirty_turn[of server x sid s cs0] by blast
next
  assume "fst (push_dirty server x (s, cs0)) \<noteq> s"
  then show "\<exists>sid. fst (resolve_server_id server x) = Inr (Some sid) \<and>
                   apiUpdateOrderStatus server sid (status x) \<and>
                   last (snd (push_dirty server x (s, cs0))) = UpdateOrderStatus sid (status x)"
    using push_dirty_turn[of server x _ s cs0] by blast
next
  assume "map_of (rows st) k = Some d \<and> dirty d \<and>
          syncPendingOrders onLine server st = (rep, st3, cs3) \<and>
          map_of (rows st3) k = Some r3 \<and> \<not> dirty r3"
  then show "(\<exists>sid. fst (resolve_server_id server r3) = Inr (Some sid) \<and>
                   apiUpdateOrderStatus server sid (status r3) \<and>
                   UpdateOrderStatus sid (status r3) \<in> set cs3) \<or>
            (\<exists>res sent. apiSyncOrders server (getUnsyncedOrders st) = Some res \<and>
                        sent \<in> set (synced_orders_of res) \<and> server_copy sent r3)"
    using syncPendingOrders_dirty[OF wf, of k d onLine server rep st3 cs3 r3] by blast
next
  assume "map_of (rows st) k = Some d \<and> dirty d \<and>
          getAllOrders onLine server st = (shown, st4, cs4) \<and>
          map_of (rows st4) k = Some r4 \<and> \<not> dirty r4"
  then show "\<exists>os sent. apiFetchOrders server = Some os \<and> sent \<in> set os \<and>
                       forget_key r4 = forget_key sent"
    using getAllOrders_dirty[of st k d onLine server shown st4 cs4 r4] by blast
next
  assume a: "map_of (rows st) k = Some d \<and> dirty d \<and>
          map_of (rows (saveOrder saved st)) k = Some r5 \<and> \<not> dirty r5"
  then have "map_of (rows (db_put saved st)) k = Some r5" by (simp add: saveOrder_def)
  from db_put_cases[OF this] a show "r5 = saved \<or> r5 = saved\<lparr>id_local := Some k\<rparr>" by auto
next
  assume "deleteOrder key st = Inr (gone, st6) \<and> map_of (rows st6) k = Some r6"
  then show "map_of (rows st) k = Some r6"
    using deleteOrder_others by blast
qed

text \<open>
  Witness for C5. On the store with the one dirty record \<open>order_b\<close> under key 2 and a
  server that accepts every call: the status update to \<open>'completed'\<close> stores the
  record dirty; the dirty step pushes \<open>'ready'\<close> for \<open>'s2'\<close> and clears the flag. On
  the store \<open>two_orders\<close>, which also holds an unsynced record, a whole run of the
  pending-orders sync does the same after its bulk step, and a delete of order 1 leaves
  \<open>order_b\<close> as it is. On the store \<open>dirty_unsynced\<close>, a pull and a \<open>saveOrder\<close> of
  the server's version leave that version under key 1.
\<close>

theorem dirty_flag_discipline_witness:
  "wf_store all_synced \<and> wf_store two_orders \<and> wf_store dirty_unsynced \<and>
   (\<exists>st'. updateOrderStatus (JNum 2) ''completed'' all_synced
           = Inr (order_b\<lparr>status := ''completed'', dirty := True\<rparr>, st')) \<and>
   dirty (fst (projr (updateOrderStatus (JNum 2) ''completed'' all_synced))) \<and>
   status (fst (projr (updateOrderStatus (JNum 2) ''completed'' all_synced))) = ''completed'' \<and>
   map_of (rows (fst (push_all_dirty (server_up []) all_synced))) 2
     = Some (order_b\<lparr>dirty := False\<rparr>) \<and>
   (\<exists>sid. fst (resolve_server_id (server_up []) order_b) = Inr (Some sid) \<and>
          apiUpdateOrderStatus (server_up []) sid (status order_b) \<and>
          UpdateOrderStatus sid (status order_b)
            \<in> set (snd (push_all_dirty (server_up []) all_synced))) \<and>
   push_dirty (server_up []) order_b (all_synced, [])
     = (\<lparr>rows = [(2, order_b\<lparr>dirty := False\<rparr>)], next_key = 3\<rparr>,
        [UpdateOrderStatus ''s2'' ''ready'']) \<and>
   (\<exists>sid. apiUpdateOrderStatus (server_up []) sid (status order_b) \<and>
          last (snd (push_dirty (server_up []) order_b (all_synced, [])))
            = UpdateOrderStatus sid (status order_b)) \<and>
   syncPendingOrders True (server_up []) two_orders
     = (\<lparr>success = True, synced_count = Some 1, message = None\<rparr>,
        \<lparr>rows = [(1, order_a), (2, order_b\<lparr>dirty := False\<rparr>)], next_key = 3\<rparr>,
        [SyncOrders [order_a], UpdateOrderStatus ''s2'' ''ready'']) \<and>
   ((\<exists>sid. fst (resolve_server_id (server_up []) (order_b\<lparr>dirty := False\<rparr>))
             = Inr (Some sid) \<and>
           apiUpdateOrderStatus (server_up []) sid (status (order_b\<lparr>dirty := False\<rparr>)) \<and>
           UpdateOrderStatus sid (status (order_b\<lparr>dirty := False\<rparr>))
             \<in> set [SyncOrders [order_a], UpdateOrderStatus ''s2'' ''ready'']) \<or>
    (\<exists>res sent. apiSyncOrders (server_up []) (getUnsyncedOrders two_orders) = Some res \<and>
                sent \<in> set (synced_orders_of res) \<and>
                server_copy sent (order_b\<lparr>dirty := False\<rparr>))) \<and>
   (\<exists>os sent. apiFetchOrders server_echo = Some os \<and> sent \<in> set os \<and>
              forget_key server_version = forget_key sent) \<and>
   map_of (rows (saveOrder server_version dirty_unsynced)) 1 = Some server_version \<and>
   map_of (rows two_orders) 2 = Some order_b"
proof -
  let ?cleared = "\<lparr>rows = [(2, order_b\<lparr>dirty := False\<rparr>)], next_key = 3\<rparr>"
  let ?both = "\<lparr>rows = [(1, order_a), (2, order_b\<lparr>dirty := False\<rparr>)], next_key = 3\<rparr>"
  let ?pulled = "\<lparr>rows = [(1, server_version)], next_key = 2\<rparr>"
  let ?calls = "[SyncOrders [order_a], UpdateOrderStatus ''s2'' ''ready'']"
  have wf: "wf_store all_synced" and wf2: "wf_store two_orders"
    and wf3: "wf_store dirty_unsynced"
    by (simp_all add: wf_store_def store_eval)
  have u: "updateOrderStatus (JNum 2) ''completed'' all_synced
             = Inr (order_b\<lparr>status := ''completed''\<rparr>,
                    \<lparr>rows = [(2, order_b\<lparr>status := ''completed''\<rparr>)], next_key = 3\<rparr>)"
    by (simp add: updateOrderStatus_def find_order_def store_eval)
  have p: "push_all_dirty (server_up []) all_synced
             = (?cleared, [UpdateOrderStatus ''s2'' ''ready''])"
    by (simp add: push_all_dirty_def push_dirty_def resolve_server_id_def store_eval)
  have b: "map_of (rows all_synced) 2 = Some order_b" "dirty order_b"
    by (simp_all add: all_synced_def order_b_def)
  have b2: "map_of (rows two_orders) 2 = Some order_b"
    by (simp add: two_orders_def)
  have b3: "map_of (rows dirty_unsynced) 1 = Some local_dirty" "dirty local_dirty"
    by (simp_all add: dirty_unsynced_def local_dirty_def)
  have nd: "\<not> dirty (order_b\<lparr>dirty := False\<rparr>)" by simp
  have nd3: "\<not> dirty server_version" by (simp add: server_version_def blank_def)
  have mr: "map_of (rows ?cleared) 2 = Some (order_b\<lparr>dirty := False\<rparr>)"
    and mr2: "map_of (rows ?both) 2 = Some (order_b\<lparr>dirty := False\<rparr>)"
    and mr3: "map_of (rows ?pulled) 1 = Some server_version"
    by simp_all
  have rs: "fst (resolve_server_id (server_up []) order_b) = Inr (Some ''s2'')"
    "snd (resolve_server_id (server_up []) order_b) = []"
    "apiUpdateOrderStatus (server_up []) ''s2'' (status order_b)"
    "status order_b = ''ready''"
    by (simp_all add: resolve_server_id_def store_eval)
  have put: "db_put (order_b\<lparr>dirty := False\<rparr>) all_synced = ?cleared"
    by (simp add: store_eval)
  have run: "syncPendingOrders True (server_up []) two_orders
               = (\<lparr>success = True, synced_count = Some 1, message = None\<rparr>, ?both, ?calls)"
    by (simp add: syncPendingOrders_def getUnsyncedOrders_def synced_orders_of_def
        write_back_def saveOrder_def markOrderAsSynced_def matches_synced_def
        push_all_dirty_def push_dirty_def resolve_server_id_def store_eval)
  have pull: "getAllOrders True server_echo dirty_unsynced
                = ([server_version], ?pulled, [FetchOrders])"
    by (simp add: getAllOrders_def store_eval)
  have sv: "map_of (rows (saveOrder server_version dirty_unsynced)) 1 = Some server_version"
    by (simp add: saveOrder_def store_eval)
  have del: "deleteOrder (JNum 1) two_orders
               = Inr (Some order_a, \<lparr>rows = [(2, order_b)], next_key = 3\<rparr>)"
    by (simp add: deleteOrder_def find_order_def store_eval)
  have md: "map_of (rows \<lparr>rows = [(2, order_b)], next_key = 3\<rparr>) 2 = Some order_b"
    by simp
  have fo: "find_order (JNum 2) all_synced = Inr (Some order_b)"
    by (simp add: find_order_def db_get_def all_synced_def)
  note t = dirty_flag_discipline[OF wf, where key = "JNum 2" and new_status = "''completed''"
      and ord' = "order_b\<lparr>status := ''completed''\<rparr>"
      and st' = "\<lparr>rows = [(2, order_b\<lparr>status := ''completed''\<rparr>)], next_key = 3\<rparr>"
      and found = order_b and k = 2 and d = order_b and server = "server_up []"
      and ?st2.0 = ?cleared
      and cs = "[UpdateOrderStatus ''s2'' ''ready'']" and r = "order_b\<lparr>dirty := False\<rparr>"
      and x = order_b and sid = "''s2''" and s = all_synced and ?cs0.0 = "[]"]
  note t2 = dirty_flag_discipline[OF wf2, where key = "JNum 1" and k = 2 and d = order_b
      and server = "server_up []" and onLine = True
      and rep = "\<lparr>success = True, synced_count = Some 1, message = None\<rparr>"
      and ?st3.0 = ?both and ?cs3.0 = ?calls and ?r3.0 = "order_b\<lparr>dirty := False\<rparr>"
      and gone = "Some order_a" and ?st6.0 = "\<lparr>rows = [(2, order_b)], next_key = 3\<rparr>"
      and ?r6.0 = order_b]
  note t3 = dirty_flag_discipline[OF wf3, where k = 1 and d = local_dirty
      and server = server_echo and onLine = True and shown = "[server_version]"
      and ?st4.0 = ?pulled and ?cs4.0 = "[FetchOrders]" and ?r4.0 = server_version
      and saved = server_version and ?r5.0 = server_version]
  have c0: "\<exists>st'. updateOrderStatus (JNum 2) ''completed'' all_synced
                 = Inr (order_b\<lparr>status := ''completed'', dirty := True\<rparr>, st')"
    using t fo by blast
  have c1: "dirty (order_b\<lparr>status := ''completed''\<rparr>) \<and>
            status (order_b\<lparr>status := ''completed''\<rparr>) = ''completed''"
    using t u by blast
  have c2: "\<exists>sid. fst (resolve_server_id (server_up []) order_b) = Inr (Some sid) \<and>
          apiUpdateOrderStatus (server_up []) sid (status order_b) \<and>
          UpdateOrderStatus sid (status order_b) \<in> set [UpdateOrderStatus ''s2'' ''ready'']"
    using t b p nd mr by blast
  have c3: "push_dirty (server_up []) order_b (all_synced, [])
              = (db_put (order_b\<lparr>dirty := False\<rparr>) all_synced,
                 [] @ snd (resolve_server_id (server_up []) order_b)
                    @ [UpdateOrderStatus ''s2'' (status order_b)])"
    using t rs(1,3) by blast
  then have c3': "push_dirty (server_up []) order_b (all_synced, [])
              = (?cleared, [UpdateOrderStatus ''s2'' ''ready''])"
    by (simp add: put rs)
  have "?cleared \<noteq> all_synced"
    by (simp add: all_synced_def order_b_def blank_def)
  then have ne: "fst (push_dirty (server_up []) order_b (all_synced, [])) \<noteq> all_synced"
    unfolding c3' by simp
  have c4: "\<exists>sid. fst (resolve_server_id (server_up []) order_b) = Inr (Some sid) \<and>
          apiUpdateOrderStatus (server_up []) sid (status order_b) \<and>
          last (snd (push_dirty (server_up []) order_b (all_synced, [])))
            = UpdateOrderStatus sid (status order_b)"
    using t ne by blast
  have c5: "(\<exists>sid. fst (resolve_server_id (server_up []) (order_b\<lparr>dirty := False\<rparr>))
             = Inr (Some sid) \<and>
           apiUpdateOrderStatus (server_up []) sid (status (order_b\<lparr>dirty := False\<rparr>)) \<and>
           UpdateOrderStatus sid (status (order_b\<lparr>dirty := False\<rparr>)) \<in> set ?calls) \<or>
    (\<exists>res sent. apiSyncOrders (server_up []) (getUnsyncedOrders two_orders) = Some res \<and>
                sent \<in> set (synced_orders_of res) \<and>
                server_copy sent (order_b\<lparr>dirty := False\<rparr>))"
    using t2 b2 b(2) run mr2 nd by blast
  have c6: "\<exists>os sent. apiFetchOrders server_echo = Some os \<and> sent \<in> set os \<and>
              forget_key server_version = forget_key sent"
    using t3[THEN conjunct2, THEN conjunct2, THEN conjunct2, THEN conjunct2, THEN conjunct2, THEN conjunct2, THEN conjunct2, THEN conjunct1] b3 pull mr3 nd3 by blast
  have c7: "server_version = server_version \<or>
            server_version = server_version\<lparr>id_local := Some 1\<rparr>"
    using t3[THEN conjunct2, THEN conjunct2, THEN conjunct2, THEN conjunct2, THEN conjunct2, THEN conjunct2, THEN conjunct2, THEN conjunct2, THEN conjunct1] b3 sv nd3 by blast
  have c8: "map_of (rows two_orders) 2 = Some order_b"
    using t2[THEN conjunct2, THEN conjunct2, THEN conjunct2, THEN conjunct2, THEN conjunct2, THEN conjunct2, THEN conjunct2, THEN conjunct2, THEN conjunct2] del md by blast
  have p1: "fst (push_all_dirty (server_up []) all_synced) = ?cleared"
    and p2: "snd (push_all_dirty (server_up []) all_synced) = [UpdateOrderStatus ''s2'' ''ready'']"
    by (simp_all add: p)
  have u1: "fst (projr (updateOrderStatus (JNum 2) ''completed'' all_synced))
              = order_b\<lparr>status := ''completed''\<rparr>"
    by (simp add: u)
  show ?thesis
    unfolding p1 p2 u1 using wf wf2 wf3 c0 c1 c2 c3' c4 run c5 c6 sv c8 mr by blast
qed

text \<open>
  Counterexample to C5 as stated. The store holds one record, not synced and dirty, with
  the local status \<open>'preparing'\<close>; the server holds the order with status
  \<open>'pending'\<close>. A run of the pending-orders sync sends the record in the bulk call and
  writes the server's answer over it: the record under key 1 is no longer dirty, its
  status is \<open>'pending'\<close> again, and the only call made is the bulk call, no status
  update. A pull on the same store replaces the dirty record in the same way.
\<close>

theorem dirty_cleared_without_push_counterexample:
  "map_of (rows dirty_unsynced) 1 = Some local_dirty \<and>
   dirty local_dirty \<and> status local_dirty = ''preparing'' \<and>
   syncPendingOrders True server_echo dirty_unsynced
     = (\<lparr>success = True, synced_count = Some 1, message = None\<rparr>,
        \<lparr>rows = [(1, server_version)], next_key = 2\<rparr>,
        [SyncOrders [local_dirty]]) \<and>
   getAllOrders True server_echo dirty_unsynced
     = ([server_version], \<lparr>rows = [(1, server_version)], next_key = 2\<rparr>, [FetchOrders]) \<and>
   dirty server_version = False \<and> status server_version = ''pending''"
  by (simp add: syncPendingOrders_def getUnsyncedOrders_def synced_orders_of_def
      write_back_def saveOrder_def markOrderAsSynced_def matches_synced_def
      push_all_dirty_def getAllOrders_def store_eval)

end
